theory Spec2Isabelle
  imports Main "HOL-Library.AList" "HOL-Library.Sublist"
begin

section \<open>JavaScript values\<close>

text \<open>
  The logger handles values of unknown type (\<^verbatim>\<open>unknown\<close>, \<^verbatim>\<open>Record<string, unknown>\<close>).
  They are modelled by one datatype. An object is the list of its properties in insertion
  order, as \<^verbatim>\<open>Object.entries\<close> enumerates them. An instance of \<^verbatim>\<open>Error\<close> carries the four
  properties the type \<^verbatim>\<open>Error\<close> declares (\<^verbatim>\<open>name\<close>, \<^verbatim>\<open>message\<close>, \<^verbatim>\<open>stack?\<close>, \<^verbatim>\<open>cause?\<close>) and the
  list of its further members (own or inherited, as the operator \<^verbatim>\<open>in\<close> sees them).
  Numbers are integers here (status codes); a function value is known by its name only.
\<close>

datatype jsval =
    JUndefined
  | JNull
  | JBool bool
  | JNum int
  | JStr string
  | JArr "jsval list"
  | JObj "(string \<times> jsval) list"
  | JErr string string "string option" jsval "(string \<times> jsval) list"
  | JFun string

type_synonym jsobj = "(string \<times> jsval) list"

text \<open>The operator \<^verbatim>\<open>typeof\<close>.\<close>

fun typeof :: "jsval \<Rightarrow> string" where
  "typeof JUndefined = ''undefined''"
| "typeof JNull = ''object''"
| "typeof (JBool b) = ''boolean''"
| "typeof (JNum n) = ''number''"
| "typeof (JStr s) = ''string''"
| "typeof (JArr xs) = ''object''"
| "typeof (JObj ps) = ''object''"
| "typeof (JErr n m s c ps) = ''object''"
| "typeof (JFun f) = ''function''"

text \<open>Conversion to boolean, as \<^verbatim>\<open>if (v)\<close>, \<^verbatim>\<open>!v\<close>, \<^verbatim>\<open>a || b\<close> and \<^verbatim>\<open>a && b\<close> apply it.\<close>

fun truthy :: "jsval \<Rightarrow> bool" where
  "truthy JUndefined = False"
| "truthy JNull = False"
| "truthy (JBool b) = b"
| "truthy (JNum n) = (n \<noteq> 0)"
| "truthy (JStr s) = (s \<noteq> [])"
| "truthy (JArr xs) = True"
| "truthy (JObj ps) = True"
| "truthy (JErr n m s c ps) = True"
| "truthy (JFun f) = True"

text \<open>\<^verbatim>\<open>a || b\<close>\<close>

definition js_or :: "jsval \<Rightarrow> jsval \<Rightarrow> jsval" where
  "js_or a b = (if truthy a then a else b)"

text \<open>An optional string argument (\<^verbatim>\<open>context?: string\<close>) as a value.\<close>

fun of_opt :: "string option \<Rightarrow> jsval" where
  "of_opt None = JUndefined"
| "of_opt (Some s) = JStr s"

text \<open>\<^verbatim>\<open>message instanceof Error\<close>\<close>

fun instanceofError :: "jsval \<Rightarrow> bool" where
  "instanceofError (JErr n m s c ps) = True"
| "instanceofError v = False"

subsection \<open>Objects\<close>

text \<open>\<^verbatim>\<open>obj[k]\<close>: the value of a property, \<^verbatim>\<open>undefined\<close> when the object has none.\<close>

definition obj_get :: "jsobj \<Rightarrow> string \<Rightarrow> jsval" where
  "obj_get obj k = (case map_of obj k of None \<Rightarrow> JUndefined | Some v \<Rightarrow> v)"

text \<open>\<^verbatim>\<open>k in obj\<close>\<close>

definition obj_has :: "jsobj \<Rightarrow> string \<Rightarrow> bool" where
  "obj_has obj k = (k \<in> set (map fst obj))"

text \<open>
  \<^verbatim>\<open>obj[k] = v\<close> is \<^const>\<open>AList.update\<close>: an existing property keeps its place, a new one is
  appended. \<^verbatim>\<open>delete obj[k]\<close> is \<^const>\<open>AList.delete\<close>.
  \<^verbatim>\<open>Object.assign(target, src)\<close> and the spread \<^verbatim>\<open>{...target, ...src}\<close> assign the properties
  of \<^verbatim>\<open>src\<close> in their order.
\<close>

definition obj_assign :: "jsobj \<Rightarrow> jsobj \<Rightarrow> jsobj" where
  "obj_assign target src = fold (\<lambda>(k, v). AList.update k v) src target"

text \<open>
  Property access on a value of unknown type (\<^verbatim>\<open>caller?.service\<close>, \<^verbatim>\<open>error.code\<close>).
  On an error the declared properties come first, then its further members.
\<close>

fun js_prop :: "jsval \<Rightarrow> string \<Rightarrow> jsval" where
  "js_prop (JObj ps) k = obj_get ps k"
| "js_prop (JErr n m s c ps) k =
     (if k = ''name'' then JStr n
      else if k = ''message'' then JStr m
      else if k = ''stack'' then of_opt s
      else if k = ''cause'' then c
      else obj_get ps k)"
| "js_prop v k = JUndefined"

section \<open>The context store\<close>

text \<open>
  The state of one unit of work: the continuation-local store of \<^verbatim>\<open>ClsService\<close> (an external
  collaborator: a key/value store), the calls made into the pino logger so far, each with
  its level, its record and its message, and the number of times \<^verbatim>\<open>getCallerContext\<close> has
  inspected the stack. The unit of work runs inside an active CLS context, so \<^verbatim>\<open>cls.get()\<close>
  yields a store.
\<close>

datatype level = LTrace | LDebug | LInfo | LWarn | LError | LFatal

record state =
  store :: jsobj
  emitted :: "(level \<times> jsobj \<times> string option) list"
  inspections :: nat

text \<open>\<^verbatim>\<open>cls.set(key, value)\<close> and \<^verbatim>\<open>cls.get(key)\<close>\<close>

definition cls_set :: "string \<Rightarrow> jsval \<Rightarrow> state \<Rightarrow> state" where
  "cls_set key v st = st\<lparr>store := AList.update key v (store st)\<rparr>"

definition cls_get :: "state \<Rightarrow> string \<Rightarrow> jsval" where
  "cls_get st key = obj_get (store st) key"

subsection \<open>LoggerContextService\<close>

text \<open>
  \<^verbatim>\<open>run(context, callback)\<close>: every entry of \<^verbatim>\<open>context\<close> whose value is not \<^verbatim>\<open>undefined\<close> is
  written to the store, then the callback runs.
\<close>

definition ctx_seed :: "jsobj \<Rightarrow> state \<Rightarrow> state" where
  "ctx_seed ctx st =
     fold (\<lambda>(key, v) s. if v \<noteq> JUndefined then cls_set key v s else s) ctx st"

definition ctx_run :: "jsobj \<Rightarrow> (state \<Rightarrow> 'a) \<Rightarrow> state \<Rightarrow> 'a" where
  "ctx_run ctx callback st = callback (ctx_seed ctx st)"

text \<open>\<^verbatim>\<open>get()\<close>: a fresh object with every key of the store whose value is not \<^verbatim>\<open>undefined\<close>.\<close>

definition ctx_get :: "state \<Rightarrow> jsobj" where
  "ctx_get st =
     fold (\<lambda>key c. if cls_get st key \<noteq> JUndefined then AList.update key (cls_get st key) c else c)
       (map fst (store st)) []"

text \<open>\<^verbatim>\<open>set(key, value)\<close>\<close>

definition ctx_set :: "string \<Rightarrow> jsval \<Rightarrow> state \<Rightarrow> state" where
  "ctx_set key v st = (if v \<noteq> JUndefined then cls_set key v st else st)"

text \<open>\<^verbatim>\<open>getValue(key)\<close>\<close>

definition ctx_getValue :: "state \<Rightarrow> string \<Rightarrow> jsval" where
  "ctx_getValue st key = cls_get st key"

text \<open>\<^verbatim>\<open>getAll()\<close>: \<^verbatim>\<open>this.get() || {}\<close>; an object is never falsy.\<close>

definition ctx_getAll :: "state \<Rightarrow> jsobj" where
  "ctx_getAll st = ctx_get st"

section \<open>Strings\<close>

text \<open>
  A string is the list of its code units, one character each: the model covers the strings
  whose code units are below 256. In that range the white space of \<^verbatim>\<open>\s\<close> and \<^verbatim>\<open>trim()\<close> is
  the space, the tab, the line feed, the vertical tab, the form feed, the carriage return
  and the no-break space U+00A0, and the line terminators are the line feed and the carriage
  return.
\<close>

definition is_space :: "char \<Rightarrow> bool" where
  "is_space c =
     (c \<in> set [CHR '' '', CHR 0x09, CHR 0x0A, CHR 0x0B, CHR 0x0C, CHR 0x0D, CHR 0xA0])"

definition is_upper :: "char \<Rightarrow> bool" where
  "is_upper c = (c \<in> set ''ABCDEFGHIJKLMNOPQRSTUVWXYZ'')"

text \<open>The character class \<^verbatim>\<open>[a-zA-Z0-9_$]\<close>.\<close>

definition is_ident :: "char \<Rightarrow> bool" where
  "is_ident c =
     (c \<in> set ''abcdefghijklmnopqrstuvwxyzABCDEFGHIJKLMNOPQRSTUVWXYZ0123456789_$'')"

text \<open>The character class \<^verbatim>\<open>\w\<close>.\<close>

definition is_word :: "char \<Rightarrow> bool" where
  "is_word c =
     (c \<in> set ''abcdefghijklmnopqrstuvwxyzABCDEFGHIJKLMNOPQRSTUVWXYZ0123456789_'')"

text \<open>\<^verbatim>\<open>s.split(d)\<close> for a separator of one character.\<close>

fun split_on :: "char \<Rightarrow> string \<Rightarrow> string list" where
  "split_on d [] = [[]]"
| "split_on d (c # cs) =
     (if c = d then [] # split_on d cs
      else (case split_on d cs of [] \<Rightarrow> [[c]] | w # ws \<Rightarrow> (c # w) # ws))"

text \<open>\<^verbatim>\<open>s.trim()\<close>\<close>

definition trim :: "string \<Rightarrow> string" where
  "trim s = rev (dropWhile is_space (rev (dropWhile is_space s)))"

text \<open>\<^verbatim>\<open>s.includes(sub)\<close>, and a regular expression that is a literal, searched anywhere.\<close>

fun includes_str :: "string \<Rightarrow> string \<Rightarrow> bool" where
  "includes_str [] sub = (sub = [])"
| "includes_str (c # cs) sub = (prefix sub (c # cs) \<or> includes_str cs sub)"

text \<open>
  \<^verbatim>\<open>s.toLowerCase()\<close>: below 256 the upper-case letters are \<^verbatim>\<open>A\<close> to \<^verbatim>\<open>Z\<close> and U+00C0 to U+00DE
  without the multiplication sign U+00D7; each has its lower-case letter 32 code units above.
\<close>

definition upper_letters :: string where
  "upper_letters =
     ''ABCDEFGHIJKLMNOPQRSTUVWXYZ'' @
     [CHR 0xC0, CHR 0xC1, CHR 0xC2, CHR 0xC3, CHR 0xC4, CHR 0xC5, CHR 0xC6, CHR 0xC7,
      CHR 0xC8, CHR 0xC9, CHR 0xCA, CHR 0xCB, CHR 0xCC, CHR 0xCD, CHR 0xCE, CHR 0xCF,
      CHR 0xD0, CHR 0xD1, CHR 0xD2, CHR 0xD3, CHR 0xD4, CHR 0xD5, CHR 0xD6,
      CHR 0xD8, CHR 0xD9, CHR 0xDA, CHR 0xDB, CHR 0xDC, CHR 0xDD, CHR 0xDE]"

definition lower_letters :: string where
  "lower_letters =
     ''abcdefghijklmnopqrstuvwxyz'' @
     [CHR 0xE0, CHR 0xE1, CHR 0xE2, CHR 0xE3, CHR 0xE4, CHR 0xE5, CHR 0xE6, CHR 0xE7,
      CHR 0xE8, CHR 0xE9, CHR 0xEA, CHR 0xEB, CHR 0xEC, CHR 0xED, CHR 0xEE, CHR 0xEF,
      CHR 0xF0, CHR 0xF1, CHR 0xF2, CHR 0xF3, CHR 0xF4, CHR 0xF5, CHR 0xF6,
      CHR 0xF8, CHR 0xF9, CHR 0xFA, CHR 0xFB, CHR 0xFC, CHR 0xFD, CHR 0xFE]"

definition lower_char :: "char \<Rightarrow> char" where
  "lower_char c =
     (case map_of (zip upper_letters lower_letters) c of None \<Rightarrow> c | Some l \<Rightarrow> l)"

definition toLowerCase :: "string \<Rightarrow> string" where
  "toLowerCase s = map lower_char s"

section \<open>Constants (log-constants.ts)\<close>

definition SENSITIVE_KEYS :: "string list" where
  "SENSITIVE_KEYS =
     [''password'', ''token'', ''authorization'', ''secret'', ''apiKey'', ''apikey'',
      ''cookie'', ''session'', ''set-cookie'']"

definition DEFAULT_REDACT_PATHS :: "string list" where
  "DEFAULT_REDACT_PATHS =
     [''password'', ''token'', ''authorization'', ''secret'', ''apiKey'', ''apikey'',
      ''cookie'', ''session'']"

definition INTERNAL_CLASSES :: "string list" where
  "INTERNAL_CLASSES =
     [''Array'', ''Object'', ''Function'', ''Promise'', ''Logger'', ''LoggerService'',
      ''NestLogger'', ''Console'', ''Module'', ''InstanceLoader'', ''NestFactory'',
      ''NestApplication'', ''NestApplicationContext'', ''Router'', ''RouterExplorer'',
      ''RoutesResolver'', ''Injector'', ''ModuleRef'', ''Reflector'', ''MetadataScanner'',
      ''DependenciesScanner'', ''ModuleCompiler'', ''NestContainer'', ''ContextIdFactory'',
      ''ContextId'', ''ModuleTokenFactory'', ''ModuleDefinition'', ''UnknownModule'',
      ''UndefinedModule'', ''DynamicModule'', ''StaticModule'', ''AsyncLocalStorage'',
      ''AsyncResource'', ''EventEmitter'', ''Stream'', ''Readable'', ''Writable'',
      ''Transform'', ''Duplex'', ''PassThrough'', ''OperatorSubscriber'', ''Subscriber'',
      ''Observable'']"

definition INTERNAL_METHODS :: "string list" where
  "INTERNAL_METHODS =
     [''forEach'', ''map'', ''filter'', ''reduce'', ''find'', ''some'', ''every'', ''call'',
      ''apply'', ''bind'', ''toString'', ''valueOf'', ''hasOwnProperty'', ''isPrototypeOf'',
      ''propertyIsEnumerable'', ''toLocaleString'', ''constructor'', ''__defineGetter__'',
      ''__defineSetter__'', ''__lookupGetter__'', ''__lookupSetter__'', ''__proto__'',
      ''next'', ''error'', ''complete'', ''subscribe'', ''pipe'', ''tap'', ''catchError'']"

definition INVALID_CONTEXT_VALUES :: "string list" where
  "INVALID_CONTEXT_VALUES =
     [''Array'', ''forEach'', ''Object'', ''OperatorSubscriber'', ''Subscriber'']"

text \<open>\<^verbatim>\<open>SET.has(v)\<close> for a set of strings and a value of unknown type.\<close>

fun set_has :: "string list \<Rightarrow> jsval \<Rightarrow> bool" where
  "set_has S (JStr s) = (s \<in> set S)"
| "set_has S v = False"

section \<open>Utilities (log-utils)\<close>

definition formatStackTrace :: "string \<Rightarrow> string list" where
  "formatStackTrace stack = filter (\<lambda>line. line \<noteq> []) (map trim (split_on CHR 0x0A stack))"

text \<open>
  \<^verbatim>\<open>sanitizeObject\<close>: a copy of the object in which the value of every key that contains a
  sensitive key, both in lower case, is the marker.
\<close>

definition is_sensitive :: "string list \<Rightarrow> string \<Rightarrow> bool" where
  "is_sensitive sensitiveKeys key =
     list_ex (\<lambda>sensitive. includes_str (toLowerCase key) (toLowerCase sensitive)) sensitiveKeys"

definition sanitizeObject :: "jsobj \<Rightarrow> string list \<Rightarrow> jsobj" where
  "sanitizeObject obj sensitiveKeys =
     fold (\<lambda>key sanitized.
            if is_sensitive sensitiveKeys key
            then AList.update key (JStr ''[REDACTED]'') sanitized else sanitized)
       (map fst obj) obj"

text \<open>\<^verbatim>\<open>k in error\<close> for a value that is an object.\<close>

fun js_in :: "string \<Rightarrow> jsval \<Rightarrow> bool" where
  "js_in k (JObj ps) = obj_has ps k"
| "js_in k (JErr n m s c ps) =
     (k = ''name'' \<or> k = ''message'' \<or> (k = ''stack'' \<and> s \<noteq> None)
      \<or> (k = ''cause'' \<and> c \<noteq> JUndefined) \<or> obj_has ps k)"
| "js_in k v = False"

definition isBaseError :: "jsval \<Rightarrow> bool" where
  "isBaseError error =
     (instanceofError error \<and>
      js_in ''code'' error \<and>
      js_in ''loggable'' error \<and>
      js_in ''setTransportIfUnset'' error \<and>
      typeof (js_prop error ''code'') = ''string'' \<and>
      typeof (js_prop error ''loggable'') = ''boolean'')"

definition isValidContextValue :: "jsval \<Rightarrow> string option \<Rightarrow> bool" where
  "isValidContextValue v key =
     (if key = Some ''context'' then False
      else if typeof v = ''string'' \<and> set_has INVALID_CONTEXT_VALUES v then False
      else True)"

definition cleanLogData :: "jsobj \<Rightarrow> jsobj" where
  "cleanLogData logData =
     fold (\<lambda>(key, v) cleaned.
            if isValidContextValue v (Some key) then AList.update key v cleaned else cleaned)
       logData []"

fun formatCause :: "jsval \<Rightarrow> jsval" where
  "formatCause (JErr n m s c ps) =
     JObj ([(''name'', JStr n), (''message'', JStr m)] @
           (case s of
              None \<Rightarrow> []
            | Some stack \<Rightarrow>
                if stack \<noteq> [] then [(''stack'', JArr (map JStr (formatStackTrace stack)))]
                else []))"
| "formatCause cause = cause"

section \<open>Trace context of a request (logger.context)\<close>

text \<open>A header is a string or an array of strings; an absent header is \<^verbatim>\<open>undefined\<close>.\<close>

datatype header = HStr string | HArr "string list"

type_synonym headers = "string \<rightharpoonup> header"

fun h_truthy :: "header option \<Rightarrow> bool" where
  "h_truthy None = False"
| "h_truthy (Some (HStr s)) = (s \<noteq> [])"
| "h_truthy (Some (HArr xs)) = True"

definition h_or :: "header option \<Rightarrow> header option \<Rightarrow> header option" where
  "h_or a b = (if h_truthy a then a else b)"

text \<open>\<^verbatim>\<open>Array.isArray(h) ? h[0] : h\<close>\<close>

fun first_of :: "header option \<Rightarrow> string option" where
  "first_of None = None"
| "first_of (Some (HStr s)) = Some s"
| "first_of (Some (HArr [])) = None"
| "first_of (Some (HArr (x # xs))) = Some x"

record trace_context =
  traceId :: "string option"
  spanId :: "string option"
  parentSpanId :: "string option"
  traceFlags :: "string option"

fun is_array :: "header option \<Rightarrow> bool" where
  "is_array (Some (HArr xs)) = True"
| "is_array h = False"

fun h_string :: "header option \<Rightarrow> string" where
  "h_string (Some (HStr s)) = s"
| "h_string h = []"

definition extractTraceContext :: "headers \<Rightarrow> trace_context" where
  "extractTraceContext hs =
     (let traceparent = h_or (hs ''traceparent'') (hs ''x-traceparent'');
          tracestate = h_or (hs ''tracestate'') (hs ''x-tracestate'')
      in if \<not> h_truthy traceparent \<or> is_array traceparent then
           \<lparr>traceId = first_of (h_or (hs ''x-trace-id'') (hs ''x-traceid'')),
            spanId = first_of (h_or (hs ''x-span-id'') (hs ''x-spanid'')),
            parentSpanId = first_of (h_or (hs ''x-parent-span-id'') (hs ''x-parent-spanid'')),
            traceFlags = first_of tracestate\<rparr>
         else
           (let parts = split_on CHR ''-'' (h_string traceparent)
            in if length parts \<ge> 4
               then \<lparr>traceId = Some (parts ! 1), spanId = None,
                     parentSpanId = Some (parts ! 2), traceFlags = Some (parts ! 3)\<rparr>
               else \<lparr>traceId = None, spanId = None, parentSpanId = None, traceFlags = None\<rparr>))"

section \<open>Caller resolution (getCallerContext)\<close>

text \<open>
  The regular expressions of \<^verbatim>\<open>getCallerContext\<close> are searched at the leftmost position where
  they match. Each matcher below decides the match at the start of its argument; in each
  expression the repetitions are followed by a character they cannot match, and the optional
  words begin with a lower-case letter where an upper-case one must follow, so the greedy
  match is the only one.
\<close>

fun search :: "(string \<Rightarrow> 'a option) \<Rightarrow> string \<Rightarrow> 'a option" where
  "search m [] = m []"
| "search m (c # cs) = (case m (c # cs) of Some x \<Rightarrow> Some x | None \<Rightarrow> search m cs)"

text \<open>An optional word followed by white space: \<^verbatim>\<open>(?:async\s+)?\<close>, \<^verbatim>\<open>(?:new\s+)?\<close>.\<close>

definition opt_word :: "string \<Rightarrow> string \<Rightarrow> string" where
  "opt_word w s =
     (let r = drop (length w) s
      in if prefix w s \<and> r \<noteq> [] \<and> is_space (hd r) then dropWhile is_space r else s)"

text \<open>\<^verbatim>\<open>/at\s+(?:async\s+)?(?:new\s+)?([A-Z][a-zA-Z0-9_$]*)\.[a-zA-Z0-9_$]+/\<close>, group 1.\<close>

definition match_class_at :: "string \<Rightarrow> string option" where
  "match_class_at s =
     (let r1 = drop 2 s
      in if prefix ''at'' s \<and> r1 \<noteq> [] \<and> is_space (hd r1) then
           (case opt_word ''new'' (opt_word ''async'' (dropWhile is_space r1)) of
              [] \<Rightarrow> None
            | c # cs \<Rightarrow>
                if is_upper c then
                  (case dropWhile is_ident cs of
                     d # e # r \<Rightarrow>
                       if d = CHR ''.'' \<and> is_ident e then Some (c # takeWhile is_ident cs)
                       else None
                   | _ \<Rightarrow> None)
                else None)
         else None)"

text \<open>\<^verbatim>\<open>/\.([a-zA-Z0-9_$]+)\s*\(/\<close>, group 1.\<close>

definition match_method_at :: "string \<Rightarrow> string option" where
  "match_method_at s =
     (case s of
        [] \<Rightarrow> None
      | d # r \<Rightarrow>
          if d = CHR ''.'' \<and> takeWhile is_ident r \<noteq> [] then
            (case dropWhile is_space (dropWhile is_ident r) of
               [] \<Rightarrow> None
             | p # r' \<Rightarrow> if p = CHR ''('' then Some (takeWhile is_ident r) else None)
          else None)"

text \<open>\<^verbatim>\<open>/at\s+new\s+([A-Z][a-zA-Z0-9_$]+)\s*\(/\<close>, group 1.\<close>

definition match_ctor_at :: "string \<Rightarrow> string option" where
  "match_ctor_at s =
     (let r1 = drop 2 s; r2 = dropWhile is_space r1; r3 = drop 3 r2
      in if prefix ''at'' s \<and> r1 \<noteq> [] \<and> is_space (hd r1) \<and>
            prefix ''new'' r2 \<and> r3 \<noteq> [] \<and> is_space (hd r3) then
           (case dropWhile is_space r3 of
              [] \<Rightarrow> None
            | c # cs \<Rightarrow>
                if is_upper c \<and> takeWhile is_ident cs \<noteq> [] then
                  (case dropWhile is_space (dropWhile is_ident cs) of
                     [] \<Rightarrow> None
                   | p # r' \<Rightarrow>
                       if p = CHR ''('' then Some (c # takeWhile is_ident cs) else None)
                else None)
         else None)"

text \<open>
  The patterns of the frames to skip: \<^verbatim>\<open>/^Error\s*$/\<close>, \<^verbatim>\<open>/getCallerContext/\<close>,
  \<^verbatim>\<open>/LoggerService\.(log|error|warn|info|debug|verbose|fatal)/\<close>, \<^verbatim>\<open>/getAutoContext/\<close>.
\<close>

definition shouldSkip :: "string \<Rightarrow> bool" where
  "shouldSkip line =
     ((prefix ''Error'' line \<and> list_all is_space (drop 5 line)) \<or>
      includes_str line ''getCallerContext'' \<or>
      list_ex (\<lambda>w. includes_str line (''LoggerService.'' @ w))
        [''log'', ''error'', ''warn'', ''info'', ''debug'', ''verbose'', ''fatal''] \<or>
      includes_str line ''getAutoContext'')"

text \<open>
  The first loop, over the first ten lines: \<^verbatim>\<open>i\<close> is the index of the head of the remaining
  lines and \<^verbatim>\<open>startIndex\<close> the value found so far.
\<close>

fun find_start :: "nat \<Rightarrow> nat \<Rightarrow> string list \<Rightarrow> nat" where
  "find_start i startIndex [] = startIndex"
| "find_start i startIndex (line # rest) =
     (if line = [] then find_start (Suc i) startIndex rest
      else if shouldSkip line then find_start (Suc i) (Suc i) rest
      else startIndex)"

text \<open>The second loop, over the lines from \<^verbatim>\<open>startIndex\<close> up to the twentieth.\<close>

fun find_caller :: "string list \<Rightarrow> jsobj" where
  "find_caller [] = []"
| "find_caller (line # rest) =
     (if line = [] then find_caller rest
      else if includes_str line ''node_modules'' \<and> \<not> includes_str line ''code-hive''
      then find_caller rest
      else
        (case search match_class_at line of
           Some className \<Rightarrow>
             if className \<in> set INTERNAL_CLASSES then find_caller rest
             else
               (let methodName = search match_method_at line
                in if (case methodName of None \<Rightarrow> False
                       | Some m \<Rightarrow> m \<noteq> [] \<and> m \<in> set INTERNAL_METHODS)
                   then find_caller rest
                   else if includes_str className ''Internal'' \<or>
                           includes_str className ''Abstract'' \<or>
                           includes_str className ''Operator''
                   then find_caller rest
                   else [(''service'', JStr className), (''method'', of_opt methodName)])
         | None \<Rightarrow>
             (case search match_ctor_at line of
                Some className \<Rightarrow>
                  if className \<notin> set INTERNAL_CLASSES \<and>
                     \<not> includes_str className ''Internal'' \<and>
                     \<not> includes_str className ''Operator''
                  then [(''service'', JStr className), (''method'', JStr ''constructor'')]
                  else find_caller rest
              | None \<Rightarrow> find_caller rest)))"

text \<open>
  \<^verbatim>\<open>getCallerContext()\<close>; its argument is what \<^verbatim>\<open>new Error().stack\<close> yields at the call.
\<close>

definition getCallerContext :: "string option \<Rightarrow> jsobj" where
  "getCallerContext stack =
     (case stack of
        None \<Rightarrow> []
      | Some s \<Rightarrow>
          if s = [] then []
          else
            (let stackLines = split_on CHR 0x0A s;
                 startIndex = find_start 0 0 (take 10 stackLines)
             in find_caller (drop startIndex (take 20 stackLines))))"

section \<open>LoggerService\<close>

text \<open>
  What a call reads from outside the logger: the stack that \<^verbatim>\<open>new Error().stack\<close> yields inside
  \<^verbatim>\<open>getCallerContext\<close>; the span context (\<^verbatim>\<open>traceId\<close>, \<^verbatim>\<open>spanId\<close>) of the active OpenTelemetry span,
  \<^verbatim>\<open>None\<close> when the API is not installed or no span is active; \<^verbatim>\<open>JSON.stringify\<close>, which
  returns a string or \<^verbatim>\<open>undefined\<close>, or throws; and, for the exception filter, the clock,
  \<^verbatim>\<open>String(exception)\<close>, the stack of the \<^verbatim>\<open>Error\<close> the filter creates, and the two payload
  producers of \<^verbatim>\<open>BaseError\<close> (package ts-nestjs-error), applied to the error.
\<close>

datatype js_error = TypeError string

record env =
  cur_stack :: "string option"
  otel_span :: "(jsval \<times> jsval) option"
  json_stringify :: "jsval \<Rightarrow> js_error + string option"
  now_iso :: string
  to_string :: "jsval \<Rightarrow> string"
  filter_stack :: "string option"
  getClientSafeError :: "jsval \<Rightarrow> jsobj"
  getRpcError :: "jsval \<Rightarrow> jsval"

text \<open>
  The logger instance: its default label (the field \<^verbatim>\<open>context\<close>) and whether a
  \<^verbatim>\<open>LoggerContextService\<close> was injected (the constructor's optional parameter).
\<close>

record logger =
  instance_context :: "string option"
  has_context_service :: bool

definition getOpenTelemetryContext :: "env \<Rightarrow> jsobj \<Rightarrow> jsobj" where
  "getOpenTelemetryContext env existingContext =
     (case otel_span env of
        None \<Rightarrow> []
      | Some (spanTraceId, spanSpanId) \<Rightarrow>
          (if \<not> truthy (obj_get existingContext ''traceId'') \<and> truthy spanTraceId
           then [(''traceId'', spanTraceId)] else []) @
          (if \<not> truthy (obj_get existingContext ''spanId'') \<and> truthy spanSpanId
           then [(''spanId'', spanSpanId)] else []))"

definition shouldIncludeServiceMethod :: "jsobj \<Rightarrow> bool" where
  "shouldIncludeServiceMethod context = (obj_get context ''component'' \<noteq> JStr ''http'')"

text \<open>
  \<^verbatim>\<open>getAutoContext()\<close> returns the automatic context and writes the caller it resolved to the
  store. The first component of \<^verbatim>\<open>resolveCaller\<close> is the local variable \<^verbatim>\<open>caller\<close>.
\<close>

definition resolveCaller :: "logger \<Rightarrow> env \<Rightarrow> jsobj \<Rightarrow> state \<Rightarrow> jsval \<times> state" where
  "resolveCaller lg env context st =
     (if shouldIncludeServiceMethod context \<and> \<not> truthy (obj_get context ''service'') \<and>
         \<not> truthy (obj_get context ''method'')
      then
        (let cachedCaller =
               (if has_context_service lg then ctx_getValue st ''_cachedCaller'' else JUndefined)
         in if truthy cachedCaller then (cachedCaller, st)
            else
              (let caller = JObj (getCallerContext (cur_stack env));
                   st' = st\<lparr>inspections := Suc (inspections st)\<rparr>
               in if (truthy (js_prop caller ''service'') \<or> truthy (js_prop caller ''method'')) \<and>
                     has_context_service lg
                  then (caller, ctx_set ''_cachedCaller'' caller st')
                  else (caller, st')))
      else (JUndefined, st))"

definition getAutoContext :: "logger \<Rightarrow> env \<Rightarrow> state \<Rightarrow> jsobj \<times> state" where
  "getAutoContext lg env st =
     (let context = (if has_context_service lg then ctx_getAll st else []);
          (caller, st') = resolveCaller lg env context st;
          otelTraceContext = getOpenTelemetryContext env context;
          autoContext = obj_assign context otelTraceContext;
          autoContext1 =
            (if truthy (js_prop caller ''service'') \<and> \<not> truthy (obj_get context ''service'') \<and>
                shouldIncludeServiceMethod context \<and>
                \<not> set_has INTERNAL_CLASSES (js_prop caller ''service'')
             then AList.update ''service'' (js_prop caller ''service'') autoContext
             else autoContext);
          autoContext2 =
            (if truthy (js_prop caller ''method'') \<and> \<not> truthy (obj_get context ''method'') \<and>
                shouldIncludeServiceMethod context \<and>
                \<not> set_has INTERNAL_METHODS (js_prop caller ''method'')
             then AList.update ''method'' (js_prop caller ''method'') autoContext1
             else autoContext1)
      in (cleanLogData autoContext2, st'))"

text \<open>
  \<^verbatim>\<open>formatMessage(message, context?)\<close>. Calling \<^verbatim>\<open>startsWith\<close> on the \<^verbatim>\<open>undefined\<close> that
  \<^verbatim>\<open>JSON.stringify\<close> may return throws a \<^verbatim>\<open>TypeError\<close>.
\<close>

definition formatMessage :: "env \<Rightarrow> jsval \<Rightarrow> jsobj option \<Rightarrow> js_error + string option" where
  "formatMessage env message context =
     (case (case message of
              JStr s \<Rightarrow> Inr (Some s)
            | JErr n m s c ps \<Rightarrow> Inr (Some m)
            | _ \<Rightarrow> json_stringify env message) of
        Inl e \<Rightarrow> Inl e
      | Inr formatted \<Rightarrow>
          (case context of
             None \<Rightarrow> Inr formatted
           | Some c \<Rightarrow>
               (case obj_get c ''context'' of
                  JStr logContext \<Rightarrow>
                    if logContext \<noteq> [] then
                      (case formatted of
                         None \<Rightarrow> Inl (TypeError ''formatted.startsWith'')
                       | Some f \<Rightarrow>
                           (let contextPrefix = ''['' @ logContext @ '']''
                            in if \<not> prefix contextPrefix f
                               then Inr (Some (contextPrefix @ '' '' @ f))
                               else Inr (Some f)))
                    else Inr formatted
                | _ \<Rightarrow> Inr formatted)))"

text \<open>
  One call into the pino logger. The arguments are evaluated first: when \<^verbatim>\<open>formatMessage\<close>
  throws, the engine is not called.
\<close>

definition emit ::
  "level \<Rightarrow> jsobj \<Rightarrow> js_error + string option \<Rightarrow> state \<Rightarrow> js_error option \<times> state" where
  "emit lvl logData msg st =
     (case msg of
        Inl e \<Rightarrow> (Some e, st)
      | Inr m \<Rightarrow> (None, st\<lparr>emitted := emitted st @ [(lvl, logData, m)]\<rparr>))"

text \<open>\<^verbatim>\<open>context || this.context || autoContext.service\<close>\<close>

definition resolveLabel :: "logger \<Rightarrow> jsval \<Rightarrow> jsobj \<Rightarrow> jsval" where
  "resolveLabel lg context autoContext =
     js_or (js_or context (of_opt (instance_context lg))) (obj_get autoContext ''service'')"

text \<open>The loop that merges the metadata in \<^verbatim>\<open>error\<close> and \<^verbatim>\<open>warn\<close>.\<close>

definition mergeMeta :: "jsobj option \<Rightarrow> jsobj \<Rightarrow> jsobj" where
  "mergeMeta meta logData =
     (case meta of
        None \<Rightarrow> logData
      | Some m \<Rightarrow>
          fold (\<lambda>(key, v) acc.
                 if isValidContextValue v (Some key) then AList.update key v acc else acc)
            m logData)"

text \<open>
  \<^verbatim>\<open>/(\w+Module|InstanceLoader|NestApplication|NestFactory)\s+(.+)/\<close>, group 1, in \<^verbatim>\<open>log\<close>.
  After the name, white space and then one character that is not a line terminator must
  follow. A name matched by \<^verbatim>\<open>\w+Module\<close> is followed by white space, so it is the whole run
  of word characters.
\<close>

fun dot_after :: "string \<Rightarrow> bool" where
  "dot_after [] = False"
| "dot_after (c # cs) = ((c \<noteq> CHR 0x0A \<and> c \<noteq> CHR 0x0D) \<or> (is_space c \<and> dot_after cs))"

definition rest_ok :: "string \<Rightarrow> bool" where
  "rest_ok r = (r \<noteq> [] \<and> is_space (hd r) \<and> dot_after (tl r))"

definition match_lifecycle_at :: "string \<Rightarrow> string option" where
  "match_lifecycle_at s =
     (let w = takeWhile is_word s
      in if length w > 6 \<and> suffix ''Module'' w \<and> rest_ok (drop (length w) s) then Some w
         else
           (case filter (\<lambda>l. prefix l s \<and> rest_ok (drop (length l) s))
                   [''InstanceLoader'', ''NestApplication'', ''NestFactory''] of
              [] \<Rightarrow> None
            | l # ls \<Rightarrow> Some l))"

definition lifecycleLabel :: "string option \<Rightarrow> jsval \<Rightarrow> jsval" where
  "lifecycleLabel rawMessage logContext =
     (case rawMessage of
        None \<Rightarrow> logContext
      | Some raw \<Rightarrow>
          (case search match_lifecycle_at raw of
             Some name \<Rightarrow> JStr name
           | None \<Rightarrow>
               if includes_str raw ''Starting Nest application'' then JStr ''NestFactory''
               else if includes_str raw ''successfully started'' then JStr ''NestApplication''
               else logContext))"

text \<open>
  The fields that \<^verbatim>\<open>error\<close> and \<^verbatim>\<open>fatal\<close> spread over the record when the message is an
  \<^verbatim>\<open>Error\<close> with name \<^verbatim>\<open>n\<close>, stack \<^verbatim>\<open>s\<close> and cause \<^verbatim>\<open>c\<close>:
  \<^verbatim>\<open>errorName: message.name, ...(stackArray && { stack: stackArray }),\<close>
  \<^verbatim>\<open>...(typeof message.cause !== 'undefined' ? { cause: formatCause(message.cause) } : {})\<close>,
  where \<^verbatim>\<open>stackArray = message.stack ? formatStackTrace(message.stack) : undefined\<close>.
\<close>

definition errorFields :: "string \<Rightarrow> string option \<Rightarrow> jsval \<Rightarrow> jsobj" where
  "errorFields n s c =
     (let stackArray =
            (case s of
               None \<Rightarrow> None
             | Some stack \<Rightarrow> if stack \<noteq> [] then Some (formatStackTrace stack) else None)
      in [(''errorName'', JStr n)] @
         (case stackArray of
            None \<Rightarrow> []
          | Some a \<Rightarrow> [(''stack'', JArr (map JStr a))]) @
         (if c \<noteq> JUndefined then [(''cause'', formatCause c)] else []))"

text \<open>\<^verbatim>\<open>log(message, context?)\<close>\<close>

definition log_op ::
  "logger \<Rightarrow> env \<Rightarrow> jsval \<Rightarrow> string option \<Rightarrow> state \<Rightarrow> js_error option \<times> state" where
  "log_op lg env message context st =
     (let (autoContext, st') = getAutoContext lg env st
      in case (case message of JStr s \<Rightarrow> Inr (Some s) | _ \<Rightarrow> formatMessage env message None) of
           Inl e \<Rightarrow> (Some e, st')
         | Inr rawMessage \<Rightarrow>
             (let logContext =
                    lifecycleLabel rawMessage (resolveLabel lg (of_opt context) autoContext);
                  logData = AList.delete ''context'' autoContext
              in emit LInfo logData
                   (formatMessage env message (Some (AList.update ''context'' logContext logData)))
                   st'))"

text \<open>\<^verbatim>\<open>error(message, meta?, context?)\<close>\<close>

definition error_op ::
  "logger \<Rightarrow> env \<Rightarrow> jsval \<Rightarrow> jsobj option \<Rightarrow> string option \<Rightarrow> state
     \<Rightarrow> js_error option \<times> state" where
  "error_op lg env message meta context st =
     (let (autoContext, st') = getAutoContext lg env st;
          logContext = resolveLabel lg (of_opt context) autoContext;
          baseErrorContext = cleanLogData autoContext;
          errorContext = mergeMeta meta baseErrorContext
      in case message of
           JErr n m s c ps \<Rightarrow>
             (let errorMeta = obj_assign errorContext (errorFields n s c)
              in emit LError errorMeta
                   (formatMessage env (JStr m) (Some (AList.update ''context'' logContext errorMeta)))
                   st')
         | _ \<Rightarrow>
             emit LError errorContext
               (formatMessage env message (Some (AList.update ''context'' logContext errorContext)))
               st')"

text \<open>
  \<^verbatim>\<open>warn(message, metaOrContext?, context?)\<close>: the second argument is a metadata object or,
  in the legacy convention, the label.
\<close>

datatype meta_or_context = Meta jsobj | Label string

definition warn_op ::
  "logger \<Rightarrow> env \<Rightarrow> jsval \<Rightarrow> meta_or_context option \<Rightarrow> string option \<Rightarrow> state
     \<Rightarrow> js_error option \<times> state" where
  "warn_op lg env message metaOrContext context st =
     (let (autoContext, st') = getAutoContext lg env st;
          (logContext0, meta) =
            (case metaOrContext of
               Some (Label l) \<Rightarrow> if l \<noteq> [] then (JStr l, None) else (of_opt context, None)
             | Some (Meta m) \<Rightarrow> (of_opt context, Some m)
             | None \<Rightarrow> (of_opt context, None));
          logContext = resolveLabel lg logContext0 autoContext;
          logData = mergeMeta meta (cleanLogData autoContext)
      in emit LWarn logData
           (formatMessage env message (Some (AList.update ''context'' logContext logData))) st')"

text \<open>\<^verbatim>\<open>debug(message, context?)\<close> and \<^verbatim>\<open>verbose(message, context?)\<close>\<close>

definition debug_op ::
  "logger \<Rightarrow> env \<Rightarrow> jsval \<Rightarrow> string option \<Rightarrow> state \<Rightarrow> js_error option \<times> state" where
  "debug_op lg env message context st =
     (let (autoContext, st') = getAutoContext lg env st;
          logContext = resolveLabel lg (of_opt context) autoContext;
          logData = cleanLogData autoContext
      in emit LDebug logData
           (formatMessage env message (Some (AList.update ''context'' logContext logData))) st')"

definition verbose_op ::
  "logger \<Rightarrow> env \<Rightarrow> jsval \<Rightarrow> string option \<Rightarrow> state \<Rightarrow> js_error option \<times> state" where
  "verbose_op lg env message context st =
     (let (autoContext, st') = getAutoContext lg env st;
          logContext = resolveLabel lg (of_opt context) autoContext;
          logData = cleanLogData autoContext
      in emit LTrace logData
           (formatMessage env message (Some (AList.update ''context'' logContext logData))) st')"

text \<open>\<^verbatim>\<open>info(message, meta?, context?)\<close>\<close>

definition mergeInfoMeta :: "jsobj option \<Rightarrow> jsobj \<Rightarrow> jsobj" where
  "mergeInfoMeta meta logData =
     (case meta of
        None \<Rightarrow> logData
      | Some m \<Rightarrow>
          fold (\<lambda>(key, v) acc.
                 if isValidContextValue v (Some key) \<and>
                    (shouldIncludeServiceMethod acc \<or> (key \<noteq> ''service'' \<and> key \<noteq> ''method''))
                 then AList.update key v acc else acc)
            m logData)"

definition info_op ::
  "logger \<Rightarrow> env \<Rightarrow> jsval \<Rightarrow> jsobj option \<Rightarrow> string option \<Rightarrow> state
     \<Rightarrow> js_error option \<times> state" where
  "info_op lg env message meta context st =
     (let (autoContext, st') = getAutoContext lg env st;
          logContext = resolveLabel lg (of_opt context) autoContext;
          logData0 = cleanLogData autoContext;
          logData1 =
            (if \<not> shouldIncludeServiceMethod logData0
             then AList.delete ''method'' (AList.delete ''service'' logData0) else logData0);
          logData = cleanLogData (mergeInfoMeta meta logData1)
      in emit LInfo logData
           (formatMessage env message (Some (AList.update ''context'' logContext logData))) st')"

text \<open>\<^verbatim>\<open>fatal(message, context?)\<close>\<close>

definition fatal_op ::
  "logger \<Rightarrow> env \<Rightarrow> jsval \<Rightarrow> string option \<Rightarrow> state \<Rightarrow> js_error option \<times> state" where
  "fatal_op lg env message context st =
     (let (autoContext, st') = getAutoContext lg env st;
          logContext = resolveLabel lg (of_opt context) autoContext;
          logData = cleanLogData autoContext
      in case message of
           JErr n m s c ps \<Rightarrow>
             emit LFatal (obj_assign logData (errorFields n s c))
               (formatMessage env (JStr m) (Some (AList.update ''context'' logContext logData)))
               st'
         | _ \<Rightarrow>
             emit LFatal logData
               (formatMessage env message (Some (AList.update ''context'' logContext logData))) st')"

subsection \<open>The options handed to the logging engine (createLogger)\<close>

text \<open>
  The options of the module and the part of the pino options the logger sets. The caller's
  \<^verbatim>\<open>pinoOptions\<close> are spread last and replace what the logger computed.
\<close>

record redact_options =
  paths :: "string list"
  remove :: bool

record pino_overrides =
  override_level :: "string option"
  override_redact :: "redact_options option"
  override_enabled :: "bool option"

record logger_module_options =
  environment :: "string option"
  level_option :: "string option"
  prettyPrint :: "bool option"
  pinoOptions :: "pino_overrides option"
  redact :: "string list option"

record pino_options =
  pino_level :: string
  pino_base :: jsobj
  pino_redact :: redact_options
  pino_enabled :: bool
  pino_pretty :: bool

text \<open>
  \<^verbatim>\<open>createLogger()\<close>; \<^verbatim>\<open>node_env\<close> is \<^verbatim>\<open>process.env.NODE_ENV\<close> and \<^verbatim>\<open>infrastructureContext\<close> the
  base fields computed at construction. The environments are the strings \<^verbatim>\<open>development\<close>,
  \<^verbatim>\<open>production\<close> and \<^verbatim>\<open>test\<close>. An engine is enabled unless told otherwise.
\<close>

definition createLogger ::
  "logger_module_options \<Rightarrow> string option \<Rightarrow> jsobj \<Rightarrow> pino_options" where
  "createLogger options node_env infrastructureContext =
     (let env_name =
            (case environment options of
               Some e \<Rightarrow> e
             | None \<Rightarrow>
                 (case node_env of
                    Some e \<Rightarrow> if e \<noteq> [] then e else ''development''
                  | None \<Rightarrow> ''development''));
          po = (case pinoOptions options of
                  None \<Rightarrow> \<lparr>override_level = None, override_redact = None, override_enabled = None\<rparr>
                | Some p \<Rightarrow> p);
          redact_paths = (case redact options of Some r \<Rightarrow> r | None \<Rightarrow> DEFAULT_REDACT_PATHS);
          isDevelopment = (env_name = ''development'');
          isTest = (env_name = ''test'');
          default_level =
            (case level_option options of
               Some l \<Rightarrow> if l \<noteq> [] then l else (if isDevelopment then ''debug'' else ''info'')
             | None \<Rightarrow> (if isDevelopment then ''debug'' else ''info''))
      in \<lparr>pino_level = (case override_level po of Some l \<Rightarrow> l | None \<Rightarrow> default_level),
          pino_base = infrastructureContext,
          pino_redact =
            (case override_redact po of
               Some r \<Rightarrow> r
             | None \<Rightarrow> \<lparr>paths = redact_paths, remove = True\<rparr>),
          pino_enabled = (case override_enabled po of Some b \<Rightarrow> b | None \<Rightarrow> \<not> isTest),
          pino_pretty = (case prettyPrint options of Some b \<Rightarrow> b | None \<Rightarrow> isDevelopment)\<rparr>)"

text \<open>
  Modelled from the spec: the redaction of the external logging engine (pino), which is not
  part of the repository. The engine honours a list of field paths to redact, replaced in
  place by its marker. The engine reads each configured string as a path. A path that is a
  plain name (an identifier: no dot, no bracket, no wildcard) addresses the field of that
  name at the top of the record, and nothing below it; the model covers the configurations
  in which every path is such a name, and gives no result for the others, whose paths
  address nested fields. The option \<^verbatim>\<open>remove\<close>, which \<^verbatim>\<open>createLogger\<close> sets, is pino's: with it
  the engine removes the key and its value instead of replacing the value.
\<close>

definition plain_name :: "string \<Rightarrow> bool" where
  "plain_name p = (p \<noteq> [] \<and> list_all is_ident p \<and> hd p \<notin> set ''0123456789'')"

definition engine_redact :: "redact_options \<Rightarrow> jsobj \<Rightarrow> jsobj option" where
  "engine_redact r logRecord =
     (if list_all plain_name (paths r) then
        Some (if remove r then filter (\<lambda>(k, v). k \<notin> set (paths r)) logRecord
              else map (\<lambda>(k, v). if k \<in> set (paths r) then (k, JStr ''[Redacted]'') else (k, v))
                     logRecord)
      else None)"

text \<open>The fields of an emitted record as the engine serializes them.\<close>

definition serialized ::
  "pino_options \<Rightarrow> level \<times> jsobj \<times> string option \<Rightarrow> jsobj option" where
  "serialized po entry = engine_redact (pino_redact po) (fst (snd entry))"

section \<open>BaseErrorExceptionFilter\<close>

text \<open>
  The host of a caught exception: the type of its execution context (\<^verbatim>\<open>host.getType()\<close>) and
  the URL of the HTTP request.
\<close>

record host =
  host_type :: string
  request_url :: string

text \<open>
  What the filter does to the client: it writes an HTTP response (the headers it set, the
  status, the JSON body), or throws the exception of the transport, or neither (a context
  type it does not know); \<^verbatim>\<open>Thrown\<close> is an error that escapes the filter before any
  response: one the logger threw, or the \<^verbatim>\<open>TypeError\<close> of a call of a member that is not a
  function.
\<close>

datatype reply =
    HttpReply "(string \<times> string) list" jsval jsobj
  | RpcException jsval
  | WsException jsval
  | NoReply
  | Thrown js_error

text \<open>
  Modelled from the spec: \<^verbatim>\<open>setTransportIfUnset\<close> of \<^verbatim>\<open>BaseError\<close> (package ts-nestjs-error, not
  part of the repository) sets the transport tag of the failure only if it is not already set.
\<close>

fun setTransportIfUnset :: "string \<Rightarrow> jsval \<Rightarrow> jsval" where
  "setTransportIfUnset t (JErr n m s c ps) =
     (if obj_get ps ''transport'' = JUndefined
      then JErr n m s c (AList.update ''transport'' (JStr t) ps)
      else JErr n m s c ps)"
| "setTransportIfUnset t v = v"

text \<open>
  The filter calls three members of the error as methods: \<^verbatim>\<open>setTransportIfUnset\<close>,
  \<^verbatim>\<open>getClientSafeError\<close> and \<^verbatim>\<open>getRpcError\<close>. \<^verbatim>\<open>isBaseError\<close> tests that the first is a member,
  not that it is a function, and does not test the other two; the call of a member that is
  not a function (or is absent) throws a \<^verbatim>\<open>TypeError\<close>. A member that is a function is taken
  to be the method of \<^verbatim>\<open>BaseError\<close> of that name.
\<close>

fun callable :: "jsval \<Rightarrow> bool" where
  "callable (JFun f) = True"
| "callable v = False"

definition callSetTransportIfUnset :: "string \<Rightarrow> jsval \<Rightarrow> js_error + jsval" where
  "callSetTransportIfUnset t baseError =
     (if callable (js_prop baseError ''setTransportIfUnset'')
      then Inr (setTransportIfUnset t baseError)
      else Inl (TypeError ''baseError.setTransportIfUnset is not a function''))"

definition extractClsContext :: "state \<Rightarrow> jsobj" where
  "extractClsContext st =
     fold (\<lambda>key clsContext.
            if cls_get st key \<noteq> JUndefined then AList.update key (cls_get st key) clsContext
            else clsContext)
       [''requestId'', ''correlationId'', ''traceId'', ''spanId'', ''userId'', ''component'',
        ''service'', ''method'']
       []"

definition buildErrorContext :: "jsval \<Rightarrow> state \<Rightarrow> jsobj" where
  "buildErrorContext exception st =
     (let context =
            [(''errorCode'', js_prop exception ''code''),
             (''errorName'', js_prop exception ''name''),
             (''transport'', js_prop exception ''transport'')] @
            (if truthy (js_prop exception ''statusCode'')
             then [(''statusCode'', js_prop exception ''statusCode'')] else []) @
            (if truthy (js_prop exception ''metadata'')
             then [(''metadata'', js_prop exception ''metadata'')] else []) @
            (if truthy (js_prop exception ''cause'')
             then [(''cause'', formatCause (js_prop exception ''cause''))] else []);
          context1 =
            (case js_prop exception ''stack'' of
               JStr stack \<Rightarrow>
                 if stack \<noteq> []
                 then AList.update ''stack'' (JArr (map JStr (formatStackTrace stack))) context
                 else context
             | _ \<Rightarrow> context)
      in obj_assign context1 (extractClsContext st))"

definition buildErrorContextForRegularError :: "jsval \<Rightarrow> state \<Rightarrow> jsobj" where
  "buildErrorContextForRegularError error st =
     (let context =
            [(''errorName'', js_prop error ''name''),
             (''errorMessage'', js_prop error ''message'')];
          context1 =
            (case js_prop error ''stack'' of
               JStr stack \<Rightarrow>
                 if stack \<noteq> []
                 then AList.update ''stack'' (JArr (map JStr (formatStackTrace stack))) context
                 else context
             | _ \<Rightarrow> context);
          context2 =
            (if truthy (js_prop error ''cause'')
             then AList.update ''cause'' (formatCause (js_prop error ''cause'')) context1
             else context1)
      in obj_assign context2 (extractClsContext st))"

text \<open>The header \<^verbatim>\<open>x-request-id\<close> is set when the store holds a non-empty string.\<close>

definition requestIdHeader :: "state \<Rightarrow> (string \<times> string) list" where
  "requestIdHeader st =
     (case cls_get st ''requestId'' of
        JStr requestId \<Rightarrow> if requestId \<noteq> [] then [(''x-request-id'', requestId)] else []
      | _ \<Rightarrow> [])"

definition handleHttpException :: "env \<Rightarrow> host \<Rightarrow> jsval \<Rightarrow> state \<Rightarrow> reply" where
  "handleHttpException env h exception st =
     (let status = js_or (js_prop exception ''statusCode'') (JNum 500)
      in if callable (js_prop exception ''getClientSafeError'') then
           (let errorResponse = getClientSafeError env exception
            in HttpReply (requestIdHeader st) status
                 (obj_assign errorResponse
                    [(''timestamp'', JStr (now_iso env)), (''path'', JStr (request_url h))]))
         else Thrown (TypeError ''exception.getClientSafeError is not a function''))"

definition handleRpcException :: "env \<Rightarrow> jsval \<Rightarrow> reply" where
  "handleRpcException env exception =
     (if callable (js_prop exception ''getRpcError'')
      then RpcException (getRpcError env exception)
      else Thrown (TypeError ''exception.getRpcError is not a function''))"

definition handleWsException :: "env \<Rightarrow> jsval \<Rightarrow> reply" where
  "handleWsException env exception =
     (if callable (js_prop exception ''getRpcError'')
      then WsException (getRpcError env exception)
      else Thrown (TypeError ''exception.getRpcError is not a function''))"

definition handleHttpExceptionForRegularError :: "env \<Rightarrow> host \<Rightarrow> jsval \<Rightarrow> state \<Rightarrow> reply" where
  "handleHttpExceptionForRegularError env h error st =
     HttpReply (requestIdHeader st) (JNum 500)
       [(''code'', JStr ''INTERNAL_SERVER_ERROR''),
        (''message'', js_or (js_prop error ''message'') (JStr ''An error occurred'')),
        (''timestamp'', JStr (now_iso env)),
        (''path'', JStr (request_url h))]"

definition regularErrorPayload :: "jsval \<Rightarrow> jsval" where
  "regularErrorPayload error =
     JObj [(''code'', JStr ''INTERNAL_SERVER_ERROR''),
           (''message'', js_or (js_prop error ''message'') (JStr ''An error occurred''))]"

text \<open>The response of the domain-error branch and of the generic branch.\<close>

definition respondBaseError :: "env \<Rightarrow> host \<Rightarrow> jsval \<Rightarrow> state \<Rightarrow> reply" where
  "respondBaseError env h baseError st =
     (if host_type h = ''http'' then handleHttpException env h baseError st
      else if host_type h = ''rpc'' then handleRpcException env baseError
      else if host_type h = ''ws'' then handleWsException env baseError
      else NoReply)"

definition respondRegularError :: "env \<Rightarrow> host \<Rightarrow> jsval \<Rightarrow> state \<Rightarrow> reply" where
  "respondRegularError env h error st =
     (if host_type h = ''http'' then handleHttpExceptionForRegularError env h error st
      else if host_type h = ''rpc'' then RpcException (regularErrorPayload error)
      else if host_type h = ''ws'' then WsException (regularErrorPayload error)
      else NoReply)"

definition catchBaseError :: "logger \<Rightarrow> env \<Rightarrow> host \<Rightarrow> jsval \<Rightarrow> state \<Rightarrow> reply \<times> state" where
  "catchBaseError lg env h exception st =
     (case (if host_type h = ''http'' then callSetTransportIfUnset ''http'' exception
            else if host_type h = ''rpc'' then callSetTransportIfUnset ''rpc'' exception
            else if host_type h = ''ws'' then callSetTransportIfUnset ''ws'' exception
            else Inr exception) of
        Inl e \<Rightarrow> (Thrown e, st)
      | Inr baseError \<Rightarrow>
          (let (thrown, st') =
                 (if truthy (js_prop baseError ''loggable'')
                  then error_op lg env baseError (Some (buildErrorContext baseError st)) None st
                  else (None, st))
           in case thrown of
                Some e \<Rightarrow> (Thrown e, st')
              | None \<Rightarrow> (respondBaseError env h baseError st', st')))"

definition catchRegularError :: "logger \<Rightarrow> env \<Rightarrow> host \<Rightarrow> jsval \<Rightarrow> state \<Rightarrow> reply \<times> state" where
  "catchRegularError lg env h exception st =
     (let error =
            (if instanceofError exception then exception
             else JErr ''Error'' (to_string env exception) (filter_stack env) JUndefined []);
          (thrown, st') =
            error_op lg env error (Some (buildErrorContextForRegularError error st)) None st
      in case thrown of
           Some e \<Rightarrow> (Thrown e, st')
         | None \<Rightarrow> (respondRegularError env h error st', st'))"

text \<open>\<^verbatim>\<open>catch(exception, host)\<close>\<close>

definition catch :: "logger \<Rightarrow> env \<Rightarrow> host \<Rightarrow> jsval \<Rightarrow> state \<Rightarrow> reply \<times> state" where
  "catch lg env h exception st =
     (if isBaseError exception then catchBaseError lg env h exception st
      else catchRegularError lg env h exception st)"

section \<open>Example inputs\<close>

text \<open>
  A concrete environment for the examples: no stack, no active span, a \<^verbatim>\<open>JSON.stringify\<close> that
  returns \<^verbatim>\<open>undefined\<close>, and payload producers that copy the code and the message of the error.
\<close>

definition example_env :: env where
  "example_env =
     \<lparr>cur_stack = None, otel_span = None, json_stringify = (\<lambda>v. Inr None),
      now_iso = ''2026-01-01T00:00:00.000Z'', to_string = (\<lambda>v. ''[object Object]''),
      filter_stack = None,
      getClientSafeError =
        (\<lambda>e. [(''code'', js_prop e ''code''), (''message'', js_prop e ''message'')]),
      getRpcError =
        (\<lambda>e. JObj [(''code'', js_prop e ''code''), (''message'', js_prop e ''message'')])\<rparr>"

text \<open>A logger with a context service, the state of an HTTP request, and its host.\<close>

definition example_logger :: logger where
  "example_logger = \<lparr>instance_context = None, has_context_service = True\<rparr>"

definition example_state :: state where
  "example_state =
     \<lparr>store = [(''requestId'', JStr ''r1''), (''component'', JStr ''http'')],
      emitted = [], inspections = 0\<rparr>"

definition example_host :: "string \<Rightarrow> host" where
  "example_host t = \<lparr>host_type = t, request_url = ''/users/1''\<rparr>"

text \<open>A domain error with the given \<^verbatim>\<open>loggable\<close> flag, and an object that only looks like one.\<close>

definition example_base_error :: "bool \<Rightarrow> jsval" where
  "example_base_error b =
     JErr ''BaseError'' ''User not found''
       (Some ''BaseError: User not found\<newline>    at UserService.get (/app/user.service.js:7:11)'')
       JUndefined
       [(''code'', JStr ''USER_NOT_FOUND''), (''statusCode'', JNum 404), (''loggable'', JBool b),
        (''setTransportIfUnset'', JFun ''setTransportIfUnset''),
        (''getClientSafeError'', JFun ''getClientSafeError''),
        (''getRpcError'', JFun ''getRpcError'')]"



text \<open>An error whose cause is an error that has a cause of its own.\<close>

definition example_chain_error :: jsval where
  "example_chain_error =
     JErr ''Error'' ''outer'' (Some ''Error: outer\<newline>    at run (/app/run.js:5:9)'')
       (JErr ''TypeError'' ''middle'' (Some ''TypeError: middle\<newline>    at parse (/app/parse.js:3:9)'')
          (JErr ''RangeError'' ''root'' (Some ''RangeError: root\<newline>    at read (/app/read.js:1:1)'')
             JUndefined [])
          [])
       []"

definition example_plain_object :: jsval where
  "example_plain_object = JObj [(''code'', JStr ''USER_NOT_FOUND''), (''loggable'', JBool False)]"


text \<open>Headers with the alias \<^verbatim>\<open>x-traceparent\<close> and a discrete trace id, and no \<^verbatim>\<open>traceparent\<close>.\<close>

definition example_alias_headers :: headers where
  "example_alias_headers =
     [''x-traceparent'' \<mapsto> HStr ''00-abc-def-01'', ''x-trace-id'' \<mapsto> HStr ''zzz'']"

text \<open>The record of the latest call into the engine.\<close>

definition last_record :: "state \<Rightarrow> jsobj" where
  "last_record st = fst (snd (last (emitted st)))"

text \<open>An error with a stack of three lines and a cause that is itself an error.\<close>

definition example_error :: jsval where
  "example_error =
     JErr ''Error'' ''boom''
       (Some ''Error: boom\<newline>    at OrderService.create (/app/order.service.js:12:17)\<newline>    at async OrderController.post (/app/order.controller.js:8:5)'')
       (JErr ''TypeError'' ''inner'' (Some ''TypeError: inner\<newline>    at parse (/app/parse.js:3:9)'')
          (JStr ''root'') [])
       []"

text \<open>The records of the calls into the engine made between two states of a unit of work.\<close>

definition new_records :: "state \<Rightarrow> state \<Rightarrow> jsobj list" where
  "new_records st st' = map (\<lambda>entry. fst (snd entry)) (drop (length (emitted st)) (emitted st'))"

text \<open>
  A stack whose caller is \<^verbatim>\<open>OrderService.create\<close>, a stack with no method of a class in it,
  and the environments of calls made under them.
\<close>

definition example_service_stack :: string where
  "example_service_stack =
     ''Error\<newline>    at getCallerContext (/app/dist/logger.context.js:10:17)\<newline>    at LoggerService.getAutoContext (/app/dist/logger.service.js:99:22)\<newline>    at LoggerService.debug (/app/dist/logger.service.js:200:30)\<newline>    at OrderService.create (/app/dist/order.service.js:12:17)''"

definition example_plain_stack :: string where
  "example_plain_stack =
     ''Error\<newline>    at getCallerContext (/app/dist/logger.context.js:10:17)\<newline>    at handler (/app/dist/handlers.js:12:17)''"

definition example_service_env :: env where
  "example_service_env = example_env\<lparr>cur_stack := Some example_service_stack\<rparr>"

definition example_plain_env :: env where
  "example_plain_env = example_env\<lparr>cur_stack := Some example_plain_stack\<rparr>"

text \<open>The state of a unit of work of the rpc transport, and one of the http transport.\<close>

definition example_rpc_state :: state where
  "example_rpc_state =
     \<lparr>store = [(''requestId'', JStr ''r2''), (''component'', JStr ''rpc'')],
      emitted = [], inspections = 0\<rparr>"

text \<open>A store in which the reserved key \<^verbatim>\<open>context\<close> was set explicitly.\<close>

definition example_reserved_state :: state where
  "example_reserved_state =
     \<lparr>store = [(''context'', JStr ''Custom''), (''requestId'', JStr ''r3''),
               (''component'', JStr ''rpc'')],
      emitted = [], inspections = 0\<rparr>"

text \<open>The options of a module configured with nothing.\<close>

definition example_options :: logger_module_options where
  "example_options =
     \<lparr>environment = None, level_option = None, prettyPrint = None, pinoOptions = None,
      redact = None\<rparr>"

text \<open>Options whose \<^verbatim>\<open>pinoOptions\<close> carry a \<^verbatim>\<open>redact\<close> option of their own.\<close>

definition example_override_options :: logger_module_options where
  "example_override_options =
     \<lparr>environment = None, level_option = None, prettyPrint = None,
      pinoOptions = Some \<lparr>override_level = None,
                          override_redact = Some \<lparr>paths = [''token''], remove = False\<rparr>,
                          override_enabled = None\<rparr>,
      redact = None\<rparr>"

section \<open>Verified properties\<close>

subsection \<open>Objects and the context store\<close>

lemma obj_get_update: "obj_get (AList.update k v al) k' = (if k' = k then v else obj_get al k')"
  by (simp add: obj_get_def update_conv')

lemma ctx_seed_Cons: "ctx_seed ((k, v) # ctx) st = ctx_seed ctx (ctx_set k v st)"
  by (simp add: ctx_seed_def ctx_set_def)

lemma ctx_seed_filter: "ctx_seed ctx st = ctx_seed (filter (\<lambda>(k, v). v \<noteq> JUndefined) ctx) st"
proof (induction ctx arbitrary: st)
  case Nil
  show ?case by simp
next
  case (Cons a ctx)
  obtain k v where a: "a = (k, v)" by (cases a)
  show ?case
  proof (cases "v = JUndefined")
    case True
    then show ?thesis using Cons.IH [of st] by (simp add: a ctx_seed_Cons ctx_set_def)
  next
    case False
    then show ?thesis using Cons.IH [of "ctx_set k v st"] by (simp add: a ctx_seed_Cons)
  qed
qed

lemma update_defined:
  "v \<noteq> JUndefined \<Longrightarrow> JUndefined \<notin> snd ` set al \<Longrightarrow>
   JUndefined \<notin> snd ` set (AList.update k v al)"
  by (induction al) auto

lemma ctx_set_defined:
  "JUndefined \<notin> snd ` set (store st) \<Longrightarrow> JUndefined \<notin> snd ` set (store (ctx_set k v st))"
  by (simp add: ctx_set_def cls_set_def update_defined)

lemma ctx_seed_defined:
  "JUndefined \<notin> snd ` set (store st) \<Longrightarrow> JUndefined \<notin> snd ` set (store (ctx_seed ctx st))"
proof (induction ctx arbitrary: st)
  case Nil
  then show ?case by (simp add: ctx_seed_def)
next
  case (Cons a ctx)
  obtain k v where a: "a = (k, v)" by (cases a)
  show ?case using Cons.IH [OF ctx_set_defined [OF Cons.prems]] by (simp add: a ctx_seed_Cons)
qed

text \<open>
  C10. \<^verbatim>\<open>set(key, undefined)\<close> leaves the state as it is: nothing is written and a value
  already stored under the key stays. \<^verbatim>\<open>run\<close> behaves as if the entries of its context whose
  value is \<^verbatim>\<open>undefined\<close> were not there. A store that holds no \<^verbatim>\<open>undefined\<close> holds none after
  \<^verbatim>\<open>set\<close> and after the seeding of \<^verbatim>\<open>run\<close>, the two operations of the accessor that write.
\<close>

theorem context_accessor_never_stores_undefined:
  "ctx_set key JUndefined st = st \<and>
   ctx_run ctx callback st = ctx_run (filter (\<lambda>(k, v). v \<noteq> JUndefined) ctx) callback st \<and>
   (JUndefined \<notin> snd ` set (store st) \<longrightarrow>
      JUndefined \<notin> snd ` set (store (ctx_set key v st)) \<and>
      JUndefined \<notin> snd ` set (store (ctx_seed ctx st)))"
proof -
  have "ctx_set key JUndefined st = st" by (simp add: ctx_set_def)
  moreover have
    "ctx_run ctx callback st = ctx_run (filter (\<lambda>(k, v). v \<noteq> JUndefined) ctx) callback st"
    unfolding ctx_run_def using ctx_seed_filter [of ctx st] by simp
  ultimately show ?thesis using ctx_set_defined ctx_seed_defined by blast
qed

theorem context_accessor_never_stores_undefined_witness:
  "ctx_set ''userId'' JUndefined \<lparr>store = [(''userId'', JStr ''u1'')], emitted = [], inspections = 0\<rparr>
     = \<lparr>store = [(''userId'', JStr ''u1'')], emitted = [], inspections = 0\<rparr> \<and>
   ctx_run [(''requestId'', JUndefined), (''tenantId'', JStr ''t1'')] store
       \<lparr>store = [(''userId'', JStr ''u1'')], emitted = [], inspections = 0\<rparr>
     = [(''userId'', JStr ''u1''), (''tenantId'', JStr ''t1'')] \<and>
   JUndefined \<notin> snd ` set (store (ctx_seed [(''requestId'', JUndefined), (''tenantId'', JStr ''t1'')]
       \<lparr>store = [(''userId'', JStr ''u1'')], emitted = [], inspections = 0\<rparr>))"
  using context_accessor_never_stores_undefined
    [of "''userId''" "\<lparr>store = [(''userId'', JStr ''u1'')], emitted = [], inspections = 0\<rparr>"
        "[(''requestId'', JUndefined), (''tenantId'', JStr ''t1'')]" store JNull]
  by (simp add: ctx_run_def ctx_seed_def cls_set_def)

subsection \<open>Trace context\<close>

text \<open>
  C8, as the code has it. A \<^verbatim>\<open>traceparent\<close> header that is one string of at least four parts
  gives the second part as \<^verbatim>\<open>traceId\<close>, the third as \<^verbatim>\<open>parentSpanId\<close> and the fourth as
  \<^verbatim>\<open>traceFlags\<close>. When both \<^verbatim>\<open>traceparent\<close> and its alias \<^verbatim>\<open>x-traceparent\<close> are absent, the result
  is read from the discrete headers, each under its two spellings, the first element of a
  header that has several values.
\<close>

theorem extractTraceContext_traceparent_and_fallback:
  "(hs ''traceparent'' = Some (HStr tp) \<and> 4 \<le> length (split_on CHR ''-'' tp) \<longrightarrow>
      extractTraceContext hs =
        \<lparr>traceId = Some (split_on CHR ''-'' tp ! 1), spanId = None,
         parentSpanId = Some (split_on CHR ''-'' tp ! 2),
         traceFlags = Some (split_on CHR ''-'' tp ! 3)\<rparr>) \<and>
   (hs ''traceparent'' = None \<and> hs ''x-traceparent'' = None \<longrightarrow>
      extractTraceContext hs =
        \<lparr>traceId = first_of (h_or (hs ''x-trace-id'') (hs ''x-traceid'')),
         spanId = first_of (h_or (hs ''x-span-id'') (hs ''x-spanid'')),
         parentSpanId = first_of (h_or (hs ''x-parent-span-id'') (hs ''x-parent-spanid'')),
         traceFlags = first_of (h_or (hs ''tracestate'') (hs ''x-tracestate''))\<rparr>)"
proof (intro conjI impI)
  assume a: "hs ''traceparent'' = Some (HStr tp) \<and> 4 \<le> length (split_on CHR ''-'' tp)"
  then have "tp \<noteq> []" by auto
  with a show "extractTraceContext hs =
        \<lparr>traceId = Some (split_on CHR ''-'' tp ! 1), spanId = None,
         parentSpanId = Some (split_on CHR ''-'' tp ! 2),
         traceFlags = Some (split_on CHR ''-'' tp ! 3)\<rparr>"
    by (simp add: extractTraceContext_def h_or_def Let_def)
next
  assume "hs ''traceparent'' = None \<and> hs ''x-traceparent'' = None"
  then show "extractTraceContext hs =
        \<lparr>traceId = first_of (h_or (hs ''x-trace-id'') (hs ''x-traceid'')),
         spanId = first_of (h_or (hs ''x-span-id'') (hs ''x-spanid'')),
         parentSpanId = first_of (h_or (hs ''x-parent-span-id'') (hs ''x-parent-spanid'')),
         traceFlags = first_of (h_or (hs ''tracestate'') (hs ''x-tracestate''))\<rparr>"
    by (simp add: extractTraceContext_def h_or_def Let_def)
qed

theorem extractTraceContext_witness:
  "extractTraceContext [''traceparent'' \<mapsto> HStr ''00-4bf92f-00f067-01'']
     = \<lparr>traceId = Some ''4bf92f'', spanId = None, parentSpanId = Some ''00f067'',
        traceFlags = Some ''01''\<rparr> \<and>
   extractTraceContext [''x-trace-id'' \<mapsto> HStr ''t1'', ''x-spanid'' \<mapsto> HArr [''s1'', ''s2'']]
     = \<lparr>traceId = Some ''t1'', spanId = Some ''s1'', parentSpanId = None, traceFlags = None\<rparr>"
  using extractTraceContext_traceparent_and_fallback
          [of "[''traceparent'' \<mapsto> HStr ''00-4bf92f-00f067-01'']" "''00-4bf92f-00f067-01''"]
        extractTraceContext_traceparent_and_fallback
          [of "[''x-trace-id'' \<mapsto> HStr ''t1'', ''x-spanid'' \<mapsto> HArr [''s1'', ''s2'']]" "[]"]
  by (simp add: h_or_def)

text \<open>
  The claim as stated fails: with no \<^verbatim>\<open>traceparent\<close> header but an \<^verbatim>\<open>x-traceparent\<close> one, the
  trace id comes from \<^verbatim>\<open>x-traceparent\<close>, not from \<^verbatim>\<open>x-trace-id\<close>.
\<close>

theorem traceparent_absent_counterexample:
  "example_alias_headers ''traceparent'' = None \<and>
   first_of (h_or (example_alias_headers ''x-trace-id'') (example_alias_headers ''x-traceid''))
     = Some ''zzz'' \<and>
   traceId (extractTraceContext example_alias_headers) = Some ''abc''"
  by (simp add: example_alias_headers_def extractTraceContext_def h_or_def Let_def)

subsection \<open>Message prefixing\<close>

lemma formatMessage_JStr:
  "formatMessage env (JStr m) (Some c) =
     (case obj_get c ''context'' of
        JStr L \<Rightarrow> if L \<noteq> [] \<and> \<not> prefix (''['' @ L @ '']'') m then Inr (Some (''['' @ L @ ''] '' @ m))
                  else Inr (Some m)
      | _ \<Rightarrow> Inr (Some m))"
  by (simp add: formatMessage_def Let_def split: jsval.splits)

lemma formatMessage_JStr_total: "\<exists>f. formatMessage env (JStr m) (Some c) = Inr (Some f)"
  by (simp add: formatMessage_JStr split: jsval.splits)

lemma bracket_free_prefix:
  "CHR '']'' \<notin> set L \<Longrightarrow> CHR '']'' \<notin> set L' \<Longrightarrow> prefix (L' @ '']'') (L @ '']'' @ r) \<Longrightarrow> L' = L"
proof (induction L' arbitrary: L)
  case Nil
  then show ?case by (cases L) auto
next
  case (Cons a as)
  then show ?case by (cases L) auto
qed

text \<open>
  C5, as the code has it. Under a non-empty label \<^verbatim>\<open>L\<close> a message that starts with \<^verbatim>\<open>[L]\<close>, with
  or without a space after it, is left as it is, and any other message gets \<^verbatim>\<open>[L]\<close> and a
  space in front. So a message that already carries \<^verbatim>\<open>[L]\<close> and a space is unchanged under
  \<^verbatim>\<open>L\<close>, and under another label \<^verbatim>\<open>L'\<close> it gets \<^verbatim>\<open>[L']\<close> and a space in front (for labels
  that hold no closing bracket, every other label). Under the empty label every message is
  left as it is: an empty label adds no prefix.
\<close>

theorem formatMessage_prefixing:
  "(L \<noteq> [] \<longrightarrow>
      formatMessage env (JStr m) (Some (AList.update ''context'' (JStr L) logData)) =
        Inr (Some (if prefix (''['' @ L @ '']'') m then m else ''['' @ L @ ''] '' @ m))) \<and>
   (L \<noteq> [] \<longrightarrow>
      formatMessage env (JStr (''['' @ L @ ''] '' @ r))
          (Some (AList.update ''context'' (JStr L) logData)) =
        Inr (Some (''['' @ L @ ''] '' @ r))) \<and>
   (L' \<noteq> [] \<and> L' \<noteq> L \<and> CHR '']'' \<notin> set L \<and> CHR '']'' \<notin> set L' \<longrightarrow>
      formatMessage env (JStr (''['' @ L @ ''] '' @ r))
          (Some (AList.update ''context'' (JStr L') logData)) =
        Inr (Some (''['' @ L' @ ''] ['' @ L @ ''] '' @ r))) \<and>
   formatMessage env (JStr m) (Some (AList.update ''context'' (JStr []) logData)) = Inr (Some m)"
proof (intro conjI impI)
  assume "L \<noteq> []"
  then show "formatMessage env (JStr m) (Some (AList.update ''context'' (JStr L) logData)) =
        Inr (Some (if prefix (''['' @ L @ '']'') m then m else ''['' @ L @ ''] '' @ m))"
    by (simp add: formatMessage_JStr obj_get_update)
next
  assume "L \<noteq> []"
  then show "formatMessage env (JStr (''['' @ L @ ''] '' @ r))
          (Some (AList.update ''context'' (JStr L) logData)) =
        Inr (Some (''['' @ L @ ''] '' @ r))"
    by (simp add: formatMessage_JStr obj_get_update)
next
  assume a: "L' \<noteq> [] \<and> L' \<noteq> L \<and> CHR '']'' \<notin> set L \<and> CHR '']'' \<notin> set L'"
  have "\<not> prefix (L' @ '']'') (L @ '']'' @ '' '' @ r)"
    using a bracket_free_prefix [of L L' "'' '' @ r"] by auto
  then have "\<not> prefix (''['' @ L' @ '']'') (''['' @ L @ ''] '' @ r)" by simp
  with a show "formatMessage env (JStr (''['' @ L @ ''] '' @ r))
          (Some (AList.update ''context'' (JStr L') logData)) =
        Inr (Some (''['' @ L' @ ''] ['' @ L @ ''] '' @ r))"
    by (simp add: formatMessage_JStr obj_get_update)
next
  show "formatMessage env (JStr m) (Some (AList.update ''context'' (JStr []) logData)) =
        Inr (Some m)"
    by (simp add: formatMessage_JStr obj_get_update)
qed

theorem formatMessage_prefixing_witness:
  "formatMessage example_env (JStr ''done'') (Some [(''requestId'', JStr ''r1''), (''context'', JStr ''API'')])
     = Inr (Some ''[API] done'') \<and>
   formatMessage example_env (JStr ''[API] done'') (Some [(''requestId'', JStr ''r1''), (''context'', JStr ''API'')])
     = Inr (Some ''[API] done'') \<and>
   formatMessage example_env (JStr ''[API] done'') (Some [(''requestId'', JStr ''r1''), (''context'', JStr ''DB'')])
     = Inr (Some ''[DB] [API] done'') \<and>
   formatMessage example_env (JStr ''done'') (Some [(''requestId'', JStr ''r1''), (''context'', JStr [])])
     = Inr (Some ''done'')"
  using formatMessage_prefixing [of "''API''" example_env "''done''" "[(''requestId'', JStr ''r1'')]" "''done''" "''DB''"]
  by simp

text \<open>
  The claim as stated fails: the test is for \<^verbatim>\<open>[L]\<close>, not for \<^verbatim>\<open>[L]\<close> and a space. A message
  that starts with \<^verbatim>\<open>[API]\<close> and no space does not start with the prefix of the claim, and
  is returned unchanged under the label \<^verbatim>\<open>API\<close>.
\<close>

theorem formatMessage_bracket_without_space_counterexample:
  "\<not> prefix ''[API] '' ''[API]done'' \<and>
   formatMessage example_env (JStr ''[API]done'') (Some [(''context'', JStr ''API'')])
     = Inr (Some ''[API]done'') \<and>
   formatMessage example_env (JStr ''[API]done'') (Some [(''context'', JStr ''API'')])
     \<noteq> Inr (Some ''[API] [API]done'')"
  by (simp add: formatMessage_JStr obj_get_def)

subsection \<open>The logger state and the error path\<close>

lemma resolveCaller_emitted: "emitted (snd (resolveCaller lg env c st)) = emitted st"
  by (simp add: resolveCaller_def Let_def ctx_set_def cls_set_def)

lemma resolveCaller_cls_get:
  "k \<noteq> ''_cachedCaller'' \<Longrightarrow> cls_get (snd (resolveCaller lg env c st)) k = cls_get st k"
  by (simp add: resolveCaller_def Let_def ctx_set_def cls_set_def cls_get_def obj_get_update)

lemma getAutoContext_snd:
  "snd (getAutoContext lg env st) =
     snd (resolveCaller lg env (if has_context_service lg then ctx_getAll st else []) st)"
  by (simp add: getAutoContext_def Let_def split_def)

lemma getAutoContext_emitted: "emitted (snd (getAutoContext lg env st)) = emitted st"
  by (simp add: getAutoContext_snd resolveCaller_emitted)

lemma getAutoContext_cls_get:
  "k \<noteq> ''_cachedCaller'' \<Longrightarrow> cls_get (snd (getAutoContext lg env st)) k = cls_get st k"
  by (simp add: getAutoContext_snd resolveCaller_cls_get)

text \<open>An \<^verbatim>\<open>Error\<close> message never makes \<^verbatim>\<open>error\<close> throw: the engine is called once.\<close>

lemma error_op_JErr:
  "\<exists>msg. error_op lg env (JErr n m s c ps) meta context st =
     (None, (snd (getAutoContext lg env st))
        \<lparr>emitted := emitted st @
           [(LError,
             obj_assign (mergeMeta meta (cleanLogData (fst (getAutoContext lg env st))))
               (errorFields n s c),
             msg)]\<rparr>)"
proof -
  obtain a st' where g: "getAutoContext lg env st = (a, st')" by (cases "getAutoContext lg env st")
  have e: "emitted st' = emitted st" using getAutoContext_emitted [of lg env st] g by simp
  obtain f where f: "formatMessage env (JStr m)
      (Some (AList.update ''context'' (resolveLabel lg (of_opt context) a)
         (obj_assign (mergeMeta meta (cleanLogData a)) (errorFields n s c)))) = Inr (Some f)"
    using formatMessage_JStr_total by blast
  have "error_op lg env (JErr n m s c ps) meta context st =
      (None, st'\<lparr>emitted := emitted st @
         [(LError, obj_assign (mergeMeta meta (cleanLogData a)) (errorFields n s c), Some f)]\<rparr>)"
    unfolding error_op_def g Let_def prod.case jsval.case f
    by (simp add: emit_def e)
  then show ?thesis using g by auto
qed

lemma fatal_op_JErr:
  "\<exists>msg. fatal_op lg env (JErr n m s c ps) context st =
     (None, (snd (getAutoContext lg env st))
        \<lparr>emitted := emitted st @
           [(LFatal,
             obj_assign (cleanLogData (fst (getAutoContext lg env st))) (errorFields n s c),
             msg)]\<rparr>)"
proof -
  obtain a st' where g: "getAutoContext lg env st = (a, st')" by (cases "getAutoContext lg env st")
  have e: "emitted st' = emitted st" using getAutoContext_emitted [of lg env st] g by simp
  obtain f where f: "formatMessage env (JStr m)
      (Some (AList.update ''context'' (resolveLabel lg (of_opt context) a) (cleanLogData a)))
        = Inr (Some f)"
    using formatMessage_JStr_total by blast
  have "fatal_op lg env (JErr n m s c ps) context st =
      (None, st'\<lparr>emitted := emitted st @
         [(LFatal, obj_assign (cleanLogData a) (errorFields n s c), Some f)]\<rparr>)"
    unfolding fatal_op_def g Let_def prod.case jsval.case f
    by (simp add: emit_def e)
  then show ?thesis using g by auto
qed

lemma obj_get_defined_has: "obj_get ps k \<noteq> JUndefined \<Longrightarrow> obj_has ps k"
proof -
  assume a: "obj_get ps k \<noteq> JUndefined"
  then obtain v where "map_of ps k = Some v" by (cases "map_of ps k") (auto simp: obj_get_def)
  then have "(k, v) \<in> set ps" by (rule map_of_SomeD)
  then show ?thesis unfolding obj_has_def by force
qed

lemma isBaseError_iff:
  "isBaseError exception =
     (instanceofError exception \<and> typeof (js_prop exception ''code'') = ''string'' \<and>
      typeof (js_prop exception ''loggable'') = ''boolean'' \<and>
      js_in ''setTransportIfUnset'' exception)"
proof (cases exception)
  case (JErr n m s c ps)
  have "typeof (obj_get ps k) = ''string'' \<Longrightarrow> obj_has ps k" for k
    using obj_get_defined_has [of ps k] by (cases "obj_get ps k") simp_all
  moreover have "typeof (obj_get ps k) = ''boolean'' \<Longrightarrow> obj_has ps k" for k
    using obj_get_defined_has [of ps k] by (cases "obj_get ps k") simp_all
  ultimately show ?thesis using JErr by (auto simp: isBaseError_def)
qed (simp_all add: isBaseError_def)

lemma catchRegularError_logs:
  "\<exists>logRecord msg. emitted (snd (catchRegularError lg env h exception st)) =
      emitted st @ [(LError, logRecord, msg)]"
proof -
  define error where "error =
     (if instanceofError exception then exception
      else JErr ''Error'' (to_string env exception) (filter_stack env) JUndefined [])"
  obtain n m s c ps where err: "error = JErr n m s c ps"
    unfolding error_def by (cases exception) auto
  obtain msg where
    "error_op lg env error (Some (buildErrorContextForRegularError error st)) None st =
     (None, (snd (getAutoContext lg env st))
        \<lparr>emitted := emitted st @
           [(LError,
             obj_assign (mergeMeta (Some (buildErrorContextForRegularError error st))
                 (cleanLogData (fst (getAutoContext lg env st))))
               (errorFields n s c),
             msg)]\<rparr>)"
    using error_op_JErr [of lg env n m s c ps "Some (buildErrorContextForRegularError error st)" None st]
    unfolding err by blast
  then show ?thesis
    unfolding catchRegularError_def error_def [symmetric] Let_def by simp
qed

text \<open>
  C9. A caught value passes \<^verbatim>\<open>isBaseError\<close>, and so enters the domain-error branch of
  \<^verbatim>\<open>catch\<close>, exactly when it is an instance of \<^verbatim>\<open>Error\<close> whose \<^verbatim>\<open>code\<close> is a string, whose
  \<^verbatim>\<open>loggable\<close> is a boolean and which has a member \<^verbatim>\<open>setTransportIfUnset\<close>. Every other value
  goes to the generic branch, which calls the engine once at error level whatever the value
  carries; an object that is not an \<^verbatim>\<open>Error\<close> is such a value, whatever its properties.
\<close>

theorem domain_branch_iff_isBaseError:
  "isBaseError exception =
     (instanceofError exception \<and> typeof (js_prop exception ''code'') = ''string'' \<and>
      typeof (js_prop exception ''loggable'') = ''boolean'' \<and>
      js_in ''setTransportIfUnset'' exception) \<and>
   catch lg env h exception st =
     (if isBaseError exception then catchBaseError lg env h exception st
      else catchRegularError lg env h exception st) \<and>
   (\<not> isBaseError exception \<longrightarrow>
      (\<exists>logRecord msg. emitted (snd (catch lg env h exception st)) =
          emitted st @ [(LError, logRecord, msg)])) \<and>
   \<not> isBaseError (JObj props)"
proof -
  have "\<not> isBaseError (JObj props)" by (simp add: isBaseError_def)
  moreover have "\<not> isBaseError exception \<longrightarrow>
      (\<exists>logRecord msg. emitted (snd (catch lg env h exception st)) =
          emitted st @ [(LError, logRecord, msg)])"
    using catchRegularError_logs [of lg env h exception st] by (simp add: catch_def)
  ultimately show ?thesis using isBaseError_iff [of exception] by (simp add: catch_def)
qed

theorem domain_branch_witness:
  "\<not> isBaseError example_plain_object \<and>
   isBaseError (example_base_error False) \<and>
   emitted (snd (catch example_logger example_env (example_host ''ws'') example_plain_object
                   example_state)) =
     [(LError,
       [(''requestId'', JStr ''r1''), (''component'', JStr ''http''),
        (''errorName'', JStr ''Error''), (''errorMessage'', JStr ''[object Object]'')],
       Some ''[object Object]'')] \<and>
   (\<exists>logRecord msg.
      emitted (snd (catch example_logger example_env (example_host ''ws'') example_plain_object
                      example_state)) =
      emitted example_state @ [(LError, logRecord, msg)])"
proof -
  have n: "\<not> isBaseError example_plain_object" by (simp add: example_plain_object_def isBaseError_def)
  have b: "isBaseError (example_base_error False)"
    by (simp add: example_base_error_def isBaseError_def obj_has_def obj_get_def)
  have ev: "emitted (snd (catch example_logger example_env (example_host ''ws'') example_plain_object
                   example_state)) =
     [(LError,
       [(''requestId'', JStr ''r1''), (''component'', JStr ''http''),
        (''errorName'', JStr ''Error''), (''errorMessage'', JStr ''[object Object]'')],
       Some ''[object Object]'')]"
    by code_simp
  show ?thesis
    using domain_branch_iff_isBaseError
            [of example_plain_object example_logger example_env "example_host ''ws''" example_state]
          n b ev
    by blast
qed

subsection \<open>The exception filter\<close>
















subsection \<open>Stack and cause of a logged error\<close>

lemma errorFields_stack:
  "obj_get (obj_assign X (errorFields n s c)) ''stack'' =
     (case s of
        None \<Rightarrow> obj_get X ''stack''
      | Some stack \<Rightarrow>
          if stack \<noteq> [] then JArr (map JStr (formatStackTrace stack)) else obj_get X ''stack'')"
  by (simp add: errorFields_def obj_assign_def obj_get_update split: option.splits)

lemma errorFields_cause:
  "obj_get (obj_assign X (errorFields n s c)) ''cause'' =
     (if c \<noteq> JUndefined then formatCause c else obj_get X ''cause'')"
  by (simp add: errorFields_def obj_assign_def obj_get_update split: option.splits)

lemma last_dropWhile: "dropWhile P xs \<noteq> [] \<Longrightarrow> last (dropWhile P xs) = last xs"
  by (induction xs) (auto split: if_splits)

lemma trim_trimmed:
  assumes "trim s \<noteq> []"
  shows "\<not> is_space (hd (trim s)) \<and> \<not> is_space (last (trim s))"
proof -
  define u where "u = dropWhile is_space s"
  define w where "w = dropWhile is_space (rev u)"
  have t: "trim s = rev w" by (simp add: trim_def u_def w_def)
  have w: "w \<noteq> []" using assms t by simp
  then have u: "u \<noteq> []" unfolding w_def by auto
  have "\<not> is_space (hd w)" using w unfolding w_def by (rule hd_dropWhile)
  moreover have "last w = last (rev u)" using w unfolding w_def by (rule last_dropWhile)
  moreover have "\<not> is_space (hd u)" using u unfolding u_def by (rule hd_dropWhile)
  ultimately show ?thesis using w u by (simp add: t hd_rev last_rev)
qed

lemma formatStackTrace_lines:
  "l \<in> set (formatStackTrace stack) \<Longrightarrow> l \<noteq> [] \<and> \<not> is_space (hd l) \<and> \<not> is_space (last l)"
  using trim_trimmed by (auto simp: formatStackTrace_def)

text \<open>
  When the message of \<^verbatim>\<open>error\<close> or \<^verbatim>\<open>fatal\<close> is an \<^verbatim>\<open>Error\<close>, the engine is called once, and
  the record carries under \<^verbatim>\<open>stack\<close> the stack of the error (when it has one) split into its
  lines, each trimmed, the empty ones dropped, in their order, and under \<^verbatim>\<open>cause\<close> the cause
  of the error (when it has one): reduced to its name, its message and its stack as lines
  when the cause is an \<^verbatim>\<open>Error\<close>, and as it is otherwise.
\<close>

theorem error_and_fatal_attach_stack_and_cause:
  "length (emitted (snd (error_op lg env (JErr n m s c ps) meta context st)))
     = Suc (length (emitted st)) \<and>
   length (emitted (snd (fatal_op lg env (JErr n m s c ps) context st)))
     = Suc (length (emitted st)) \<and>
   (s = Some stack \<and> stack \<noteq> [] \<longrightarrow>
      obj_get (last_record (snd (error_op lg env (JErr n m s c ps) meta context st))) ''stack''
        = JArr (map JStr (formatStackTrace stack)) \<and>
      obj_get (last_record (snd (fatal_op lg env (JErr n m s c ps) context st))) ''stack''
        = JArr (map JStr (formatStackTrace stack))) \<and>
   (c \<noteq> JUndefined \<longrightarrow>
      obj_get (last_record (snd (error_op lg env (JErr n m s c ps) meta context st))) ''cause''
        = formatCause c \<and>
      obj_get (last_record (snd (fatal_op lg env (JErr n m s c ps) context st))) ''cause''
        = formatCause c) \<and>
   formatStackTrace stack = filter (\<lambda>line. line \<noteq> []) (map trim (split_on CHR 0x0A stack)) \<and>
   (\<forall>l \<in> set (formatStackTrace stack). l \<noteq> [] \<and> \<not> is_space (hd l) \<and> \<not> is_space (last l)) \<and>
   (\<not> instanceofError c \<longrightarrow> formatCause c = c) \<and>
   formatCause (JErr cn cm cs cc cps) =
     JObj ([(''name'', JStr cn), (''message'', JStr cm)] @
           (case cs of
              None \<Rightarrow> []
            | Some t \<Rightarrow> if t \<noteq> [] then [(''stack'', JArr (map JStr (formatStackTrace t)))] else []))"
proof -
  obtain msg where e: "error_op lg env (JErr n m s c ps) meta context st =
     (None, (snd (getAutoContext lg env st))
        \<lparr>emitted := emitted st @
           [(LError,
             obj_assign (mergeMeta meta (cleanLogData (fst (getAutoContext lg env st))))
               (errorFields n s c),
             msg)]\<rparr>)"
    using error_op_JErr by blast
  obtain msg' where f: "fatal_op lg env (JErr n m s c ps) context st =
     (None, (snd (getAutoContext lg env st))
        \<lparr>emitted := emitted st @
           [(LFatal,
             obj_assign (cleanLogData (fst (getAutoContext lg env st))) (errorFields n s c),
             msg')]\<rparr>)"
    using fatal_op_JErr by blast
  have le: "length (emitted (snd (error_op lg env (JErr n m s c ps) meta context st)))
     = Suc (length (emitted st))"
    by (simp add: e)
  have lf: "length (emitted (snd (fatal_op lg env (JErr n m s c ps) context st)))
     = Suc (length (emitted st))"
    by (simp add: f)
  have re: "last_record (snd (error_op lg env (JErr n m s c ps) meta context st)) =
     obj_assign (mergeMeta meta (cleanLogData (fst (getAutoContext lg env st)))) (errorFields n s c)"
    by (simp add: e last_record_def)
  have rf: "last_record (snd (fatal_op lg env (JErr n m s c ps) context st)) =
     obj_assign (cleanLogData (fst (getAutoContext lg env st))) (errorFields n s c)"
    by (simp add: f last_record_def)
  have fc: "\<not> instanceofError c \<longrightarrow> formatCause c = c" by (cases c) simp_all
  have fl: "\<forall>l \<in> set (formatStackTrace stack).
      l \<noteq> [] \<and> \<not> is_space (hd l) \<and> \<not> is_space (last l)"
    using formatStackTrace_lines [of _ stack] by blast
  have fd: "formatStackTrace stack = filter (\<lambda>line. line \<noteq> []) (map trim (split_on CHR 0x0A stack))"
    by (simp add: formatStackTrace_def)
  have fe: "formatCause (JErr cn cm cs cc cps) =
     JObj ([(''name'', JStr cn), (''message'', JStr cm)] @
           (case cs of
              None \<Rightarrow> []
            | Some t \<Rightarrow> if t \<noteq> [] then [(''stack'', JArr (map JStr (formatStackTrace t)))] else []))"
    by simp
  have st: "s = Some stack \<and> stack \<noteq> [] \<longrightarrow>
      obj_get (last_record (snd (error_op lg env (JErr n m s c ps) meta context st))) ''stack''
        = JArr (map JStr (formatStackTrace stack)) \<and>
      obj_get (last_record (snd (fatal_op lg env (JErr n m s c ps) context st))) ''stack''
        = JArr (map JStr (formatStackTrace stack))"
    unfolding re rf errorFields_stack by simp
  have ca: "c \<noteq> JUndefined \<longrightarrow>
      obj_get (last_record (snd (error_op lg env (JErr n m s c ps) meta context st))) ''cause''
        = formatCause c \<and>
      obj_get (last_record (snd (fatal_op lg env (JErr n m s c ps) context st))) ''cause''
        = formatCause c"
    unfolding re rf errorFields_cause by simp
  show ?thesis using le lf st ca fd fl fc fe by blast
qed

theorem error_and_fatal_witness:
  "last_record (snd (error_op example_logger example_env example_error None None example_state)) =
     [(''requestId'', JStr ''r1''), (''component'', JStr ''http''), (''errorName'', JStr ''Error''),
      (''stack'', JArr [JStr ''Error: boom'',
         JStr ''at OrderService.create (/app/order.service.js:12:17)'',
         JStr ''at async OrderController.post (/app/order.controller.js:8:5)'']),
      (''cause'', JObj [(''name'', JStr ''TypeError''), (''message'', JStr ''inner''),
         (''stack'', JArr [JStr ''TypeError: inner'', JStr ''at parse (/app/parse.js:3:9)''])])] \<and>
   obj_get (last_record (snd (fatal_op example_logger example_env example_error None example_state)))
      ''cause'' =
     JObj [(''name'', JStr ''TypeError''), (''message'', JStr ''inner''),
         (''stack'', JArr [JStr ''TypeError: inner'', JStr ''at parse (/app/parse.js:3:9)''])] \<and>
   obj_get (last_record (snd (fatal_op example_logger example_env example_error None example_state)))
      ''stack'' = JArr [JStr ''Error: boom'',
         JStr ''at OrderService.create (/app/order.service.js:12:17)'',
         JStr ''at async OrderController.post (/app/order.controller.js:8:5)'']"
proof -
  have v: "last_record (snd (error_op example_logger example_env example_error None None example_state)) =
     [(''requestId'', JStr ''r1''), (''component'', JStr ''http''), (''errorName'', JStr ''Error''),
      (''stack'', JArr [JStr ''Error: boom'',
         JStr ''at OrderService.create (/app/order.service.js:12:17)'',
         JStr ''at async OrderController.post (/app/order.controller.js:8:5)'']),
      (''cause'', JObj [(''name'', JStr ''TypeError''), (''message'', JStr ''inner''),
         (''stack'', JArr [JStr ''TypeError: inner'', JStr ''at parse (/app/parse.js:3:9)''])])]"
    by code_simp
  have s: "formatStackTrace ''Error: boom\<newline>    at OrderService.create (/app/order.service.js:12:17)\<newline>    at async OrderController.post (/app/order.controller.js:8:5)''
     = [''Error: boom'', ''at OrderService.create (/app/order.service.js:12:17)'',
        ''at async OrderController.post (/app/order.controller.js:8:5)'']"
    by code_simp
  have c: "formatCause (JErr ''TypeError'' ''inner'' (Some ''TypeError: inner\<newline>    at parse (/app/parse.js:3:9)'')
          (JStr ''root'') []) = JObj [(''name'', JStr ''TypeError''), (''message'', JStr ''inner''),
         (''stack'', JArr [JStr ''TypeError: inner'', JStr ''at parse (/app/parse.js:3:9)''])]"
    by code_simp
  show ?thesis
    using error_and_fatal_attach_stack_and_cause
      [of example_logger example_env "''Error''" "''boom''"
          "Some ''Error: boom\<newline>    at OrderService.create (/app/order.service.js:12:17)\<newline>    at async OrderController.post (/app/order.controller.js:8:5)''"
          "JErr ''TypeError'' ''inner'' (Some ''TypeError: inner\<newline>    at parse (/app/parse.js:3:9)'') (JStr ''root'') []"
          "[]" None None example_state
          "''Error: boom\<newline>    at OrderService.create (/app/order.service.js:12:17)\<newline>    at async OrderController.post (/app/order.controller.js:8:5)''"]
      v s c
    by (simp add: example_error_def)
qed

text \<open>
  C7. The record of \<^verbatim>\<open>error\<close> and \<^verbatim>\<open>fatal\<close> for an \<^verbatim>\<open>Error\<close> carries the stack as trimmed,
  non-empty lines and the cause reduced to its name, its message and its stack, as shown
  above; but the reduction is not recursive, and the chain of causes is not preserved:
  \<^verbatim>\<open>formatCause\<close> never reads the cause of the cause. For an error whose cause is a \<^verbatim>\<open>TypeError\<close>
  that is itself caused by a \<^verbatim>\<open>RangeError\<close>, the \<^verbatim>\<open>cause\<close> field of the record holds the name, the
  message and the stack of the \<^verbatim>\<open>TypeError\<close> and no \<^verbatim>\<open>cause\<close> of its own: the \<^verbatim>\<open>RangeError\<close> is in
  no field of the record.
\<close>

theorem nested_cause_dropped:
  "js_prop (js_prop example_chain_error ''cause'') ''cause'' =
     JErr ''RangeError'' ''root'' (Some ''RangeError: root\<newline>    at read (/app/read.js:1:1)'')
       JUndefined [] \<and>
   last_record (snd (error_op example_logger example_env example_chain_error None None
       example_state)) =
     [(''requestId'', JStr ''r1''), (''component'', JStr ''http''), (''errorName'', JStr ''Error''),
      (''stack'', JArr [JStr ''Error: outer'', JStr ''at run (/app/run.js:5:9)'']),
      (''cause'', JObj [(''name'', JStr ''TypeError''), (''message'', JStr ''middle''),
         (''stack'', JArr [JStr ''TypeError: middle'', JStr ''at parse (/app/parse.js:3:9)''])])] \<and>
   last_record (snd (fatal_op example_logger example_env example_chain_error None
       example_state)) =
     [(''requestId'', JStr ''r1''), (''component'', JStr ''http''), (''errorName'', JStr ''Error''),
      (''stack'', JArr [JStr ''Error: outer'', JStr ''at run (/app/run.js:5:9)'']),
      (''cause'', JObj [(''name'', JStr ''TypeError''), (''message'', JStr ''middle''),
         (''stack'', JArr [JStr ''TypeError: middle'', JStr ''at parse (/app/parse.js:3:9)''])])] \<and>
   formatCause (js_prop example_chain_error ''cause'') =
     JObj [(''name'', JStr ''TypeError''), (''message'', JStr ''middle''),
         (''stack'', JArr [JStr ''TypeError: middle'', JStr ''at parse (/app/parse.js:3:9)''])] \<and>
   js_prop (formatCause (js_prop example_chain_error ''cause'')) ''cause'' = JUndefined"
proof -
  have a: "js_prop (js_prop example_chain_error ''cause'') ''cause'' =
     JErr ''RangeError'' ''root'' (Some ''RangeError: root\<newline>    at read (/app/read.js:1:1)'')
       JUndefined []"
    by (simp add: example_chain_error_def)
  have b: "last_record (snd (error_op example_logger example_env example_chain_error None None
       example_state)) =
     [(''requestId'', JStr ''r1''), (''component'', JStr ''http''), (''errorName'', JStr ''Error''),
      (''stack'', JArr [JStr ''Error: outer'', JStr ''at run (/app/run.js:5:9)'']),
      (''cause'', JObj [(''name'', JStr ''TypeError''), (''message'', JStr ''middle''),
         (''stack'', JArr [JStr ''TypeError: middle'', JStr ''at parse (/app/parse.js:3:9)''])])]"
    by code_simp
  have c: "last_record (snd (fatal_op example_logger example_env example_chain_error None
       example_state)) =
     [(''requestId'', JStr ''r1''), (''component'', JStr ''http''), (''errorName'', JStr ''Error''),
      (''stack'', JArr [JStr ''Error: outer'', JStr ''at run (/app/run.js:5:9)'']),
      (''cause'', JObj [(''name'', JStr ''TypeError''), (''message'', JStr ''middle''),
         (''stack'', JArr [JStr ''TypeError: middle'', JStr ''at parse (/app/parse.js:3:9)''])])]"
    by code_simp
  have d: "formatCause (js_prop example_chain_error ''cause'') =
     JObj [(''name'', JStr ''TypeError''), (''message'', JStr ''middle''),
         (''stack'', JArr [JStr ''TypeError: middle'', JStr ''at parse (/app/parse.js:3:9)''])]"
    by code_simp
  have e: "js_prop (formatCause (js_prop example_chain_error ''cause'')) ''cause'' = JUndefined"
    unfolding d by (simp add: obj_get_def)
  show ?thesis using a b c d e by (intro conjI)
qed

subsection \<open>Reserved keys\<close>

lemma obj_has_keys: "obj_has d k = (k \<in> fst ` set d)"
  by (simp add: obj_has_def)

lemma clean_step_no_context:
  "''context'' \<notin> fst ` set acc \<Longrightarrow>
   ''context'' \<notin> fst ` set
      (fold (\<lambda>(key, v) cleaned.
              if isValidContextValue v (Some key) then AList.update key v cleaned else cleaned)
         xs acc)"
proof (induction xs arbitrary: acc)
  case Nil
  then show ?case by simp
next
  case (Cons a xs)
  obtain k v where a: "a = (k, v)" by (cases a)
  have "''context'' \<notin> fst ` set
       (if isValidContextValue v (Some k) then AList.update k v acc else acc)"
    using Cons.prems by (auto simp: dom_update isValidContextValue_def)
  then show ?case using Cons.IH by (simp add: a)
qed

lemma cleanLogData_no_context: "\<not> obj_has (cleanLogData d) ''context''"
  unfolding obj_has_keys cleanLogData_def by (rule clean_step_no_context) simp

lemma mergeMeta_no_context:
  "\<not> obj_has d ''context'' \<Longrightarrow> \<not> obj_has (mergeMeta meta d) ''context''"
  unfolding obj_has_keys mergeMeta_def
  by (cases meta) (simp_all add: clean_step_no_context)

lemma obj_assign_keys: "fst ` set (obj_assign t s) = fst ` set t \<union> fst ` set s"
proof (induction s arbitrary: t)
  case Nil
  show ?case by (simp add: obj_assign_def)
next
  case (Cons a s)
  obtain k v where a: "a = (k, v)" by (cases a)
  have "obj_assign t (a # s) = obj_assign (AList.update k v t) s"
    by (simp add: obj_assign_def a)
  then show ?case using Cons.IH [of "AList.update k v t"] dom_update [of k v t]
    by (auto simp: a)
qed

lemma errorFields_keys: "fst ` set (errorFields n s c) \<subseteq> {''errorName'', ''stack'', ''cause''}"
  by (auto simp: errorFields_def Let_def split: option.splits if_splits)

lemma errorFields_no_context:
  "\<not> obj_has d ''context'' \<Longrightarrow> \<not> obj_has (obj_assign d (errorFields n s c)) ''context''"
  using errorFields_keys [of n s c] by (auto simp: obj_has_keys obj_assign_keys)

lemma delete_no_key: "\<not> obj_has (AList.delete k d) k"
  by (simp add: obj_has_keys delete_notin_dom)

lemma emit_new_records:
  "emitted st' = emitted st \<Longrightarrow> set (new_records st (snd (emit lvl d msg st'))) \<subseteq> {d}"
  by (cases msg) (simp_all add: emit_def new_records_def)

lemma new_records_same: "emitted st' = emitted st \<Longrightarrow> new_records st st' = []"
  by (simp add: new_records_def)

lemma emit_no_key:
  "emitted st' = emitted st \<Longrightarrow> \<not> obj_has d k \<Longrightarrow>
   \<forall>r \<in> set (new_records st (snd (emit lvl d msg st'))). \<not> obj_has r k"
  using emit_new_records [of st' st lvl d msg] by blast

lemma log_op_new:
  "\<forall>r \<in> set (new_records st (snd (log_op lg env message context st))). \<not> obj_has r ''context''"
proof -
  obtain a st' where g: "getAutoContext lg env st = (a, st')" by (cases "getAutoContext lg env st")
  have e: "emitted st' = emitted st" using getAutoContext_emitted [of lg env st] g by simp
  show ?thesis
  proof (cases "case message of JStr s \<Rightarrow> Inr (Some s) | _ \<Rightarrow> formatMessage env message None")
    case (Inl err)
    then show ?thesis
      unfolding log_op_def g prod.case Let_def by (simp add: new_records_same [OF e])
  next
    case (Inr raw)
    then show ?thesis
      unfolding log_op_def g prod.case Let_def
      by (simp add: emit_no_key [OF e delete_no_key])
  qed
qed

lemma error_op_new:
  "\<forall>r \<in> set (new_records st (snd (error_op lg env message meta context st))).
     \<not> obj_has r ''context''"
proof -
  obtain a st' where g: "getAutoContext lg env st = (a, st')" by (cases "getAutoContext lg env st")
  have e: "emitted st' = emitted st" using getAutoContext_emitted [of lg env st] g by simp
  have c: "\<not> obj_has (mergeMeta meta (cleanLogData a)) ''context''"
    by (simp add: mergeMeta_no_context cleanLogData_no_context)
  show ?thesis
    unfolding error_op_def g prod.case Let_def
    by (cases message)
       (simp_all add: emit_no_key [OF e c] emit_no_key [OF e errorFields_no_context [OF c]])
qed

lemma warn_op_new:
  "\<forall>r \<in> set (new_records st (snd (warn_op lg env message metaOrContext context st))).
     \<not> obj_has r ''context''"
proof -
  obtain a st' where g: "getAutoContext lg env st = (a, st')" by (cases "getAutoContext lg env st")
  have e: "emitted st' = emitted st" using getAutoContext_emitted [of lg env st] g by simp
  have c: "\<not> obj_has (mergeMeta meta (cleanLogData a)) ''context''" for meta
    by (simp add: mergeMeta_no_context cleanLogData_no_context)
  show ?thesis
    unfolding warn_op_def g Let_def split_def fst_conv snd_conv
    by (rule emit_no_key [OF e c])
qed

lemma debug_op_new:
  "\<forall>r \<in> set (new_records st (snd (debug_op lg env message context st))). \<not> obj_has r ''context''"
proof -
  obtain a st' where g: "getAutoContext lg env st = (a, st')" by (cases "getAutoContext lg env st")
  have e: "emitted st' = emitted st" using getAutoContext_emitted [of lg env st] g by simp
  show ?thesis
    unfolding debug_op_def g prod.case Let_def
    by (rule emit_no_key [OF e cleanLogData_no_context])
qed

lemma verbose_op_new:
  "\<forall>r \<in> set (new_records st (snd (verbose_op lg env message context st))). \<not> obj_has r ''context''"
proof -
  obtain a st' where g: "getAutoContext lg env st = (a, st')" by (cases "getAutoContext lg env st")
  have e: "emitted st' = emitted st" using getAutoContext_emitted [of lg env st] g by simp
  show ?thesis
    unfolding verbose_op_def g prod.case Let_def
    by (rule emit_no_key [OF e cleanLogData_no_context])
qed

lemma info_op_new:
  "\<forall>r \<in> set (new_records st (snd (info_op lg env message meta context st))).
     \<not> obj_has r ''context''"
proof -
  obtain a st' where g: "getAutoContext lg env st = (a, st')" by (cases "getAutoContext lg env st")
  have e: "emitted st' = emitted st" using getAutoContext_emitted [of lg env st] g by simp
  show ?thesis
    unfolding info_op_def g prod.case Let_def
    by (rule emit_no_key [OF e cleanLogData_no_context])
qed

lemma fatal_op_new:
  "\<forall>r \<in> set (new_records st (snd (fatal_op lg env message context st))). \<not> obj_has r ''context''"
proof -
  obtain a st' where g: "getAutoContext lg env st = (a, st')" by (cases "getAutoContext lg env st")
  have e: "emitted st' = emitted st" using getAutoContext_emitted [of lg env st] g by simp
  have c: "\<not> obj_has (cleanLogData a) ''context''" by (rule cleanLogData_no_context)
  show ?thesis
    unfolding fatal_op_def g prod.case Let_def
    by (cases message)
       (simp_all add: emit_no_key [OF e c] emit_no_key [OF e errorFields_no_context [OF c]])
qed

text \<open>
  C4, as the code has it. No record that a logging operation hands to the engine has a
  field \<^verbatim>\<open>context\<close>, whatever the store holds and whatever the metadata carries: every
  operation builds its record from data cleaned by \<^verbatim>\<open>cleanLogData\<close> or filtered by
  \<^verbatim>\<open>isValidContextValue\<close>, and \<^verbatim>\<open>log\<close> removes the key once more.
\<close>

theorem no_context_field_in_any_record:
  "(\<forall>r \<in> set (new_records st (snd (log_op lg env message context st))).
      \<not> obj_has r ''context'') \<and>
   (\<forall>r \<in> set (new_records st (snd (error_op lg env message meta context st))).
      \<not> obj_has r ''context'') \<and>
   (\<forall>r \<in> set (new_records st (snd (warn_op lg env message metaOrContext context st))).
      \<not> obj_has r ''context'') \<and>
   (\<forall>r \<in> set (new_records st (snd (debug_op lg env message context st))).
      \<not> obj_has r ''context'') \<and>
   (\<forall>r \<in> set (new_records st (snd (verbose_op lg env message context st))).
      \<not> obj_has r ''context'') \<and>
   (\<forall>r \<in> set (new_records st (snd (info_op lg env message meta context st))).
      \<not> obj_has r ''context'') \<and>
   (\<forall>r \<in> set (new_records st (snd (fatal_op lg env message context st))).
      \<not> obj_has r ''context'')"
  by (intro conjI log_op_new error_op_new warn_op_new debug_op_new verbose_op_new info_op_new
      fatal_op_new)

theorem no_context_field_witness:
  "new_records example_reserved_state
     (snd (info_op example_logger example_service_env (JStr ''saved'')
             (Some [(''context'', JStr ''Meta''), (''userId'', JStr ''u1'')]) None
             example_reserved_state)) =
     [[(''requestId'', JStr ''r3''), (''component'', JStr ''rpc''),
       (''service'', JStr ''OrderService''), (''method'', JStr ''create''),
       (''userId'', JStr ''u1'')]] \<and>
   \<not> obj_has [(''requestId'', JStr ''r3''), (''component'', JStr ''rpc''),
       (''service'', JStr ''OrderService''), (''method'', JStr ''create''),
       (''userId'', JStr ''u1'')] ''context''"
proof -
  have v: "new_records example_reserved_state
     (snd (info_op example_logger example_service_env (JStr ''saved'')
             (Some [(''context'', JStr ''Meta''), (''userId'', JStr ''u1'')]) None
             example_reserved_state)) =
     [[(''requestId'', JStr ''r3''), (''component'', JStr ''rpc''),
       (''service'', JStr ''OrderService''), (''method'', JStr ''create''),
       (''userId'', JStr ''u1'')]]"
    by code_simp
  show ?thesis
    using no_context_field_in_any_record
      [of example_reserved_state example_logger example_service_env "JStr ''saved''" None
          "Some [(''context'', JStr ''Meta''), (''userId'', JStr ''u1'')]" None]
      v
    by simp
qed

text \<open>
  The claim as stated fails for \<^verbatim>\<open>_cachedCaller\<close>: the key is read back from the store with the
  rest of the context and nothing removes it. Once a call has cached the caller, the record
  of the next call has the field.
\<close>

theorem cached_caller_surfaces_counterexample:
  "last_record
     (snd (debug_op example_logger example_service_env (JStr ''second'') None
        (snd (debug_op example_logger example_service_env (JStr ''first'') None
                example_rpc_state)))) =
     [(''requestId'', JStr ''r2''), (''component'', JStr ''rpc''),
      (''_cachedCaller'',
       JObj [(''service'', JStr ''OrderService''), (''method'', JStr ''create'')]),
      (''service'', JStr ''OrderService''), (''method'', JStr ''create'')] \<and>
   obj_has
     (last_record
       (snd (debug_op example_logger example_service_env (JStr ''second'') None
          (snd (debug_op example_logger example_service_env (JStr ''first'') None
                  example_rpc_state)))))
     ''_cachedCaller''"
  by code_simp

subsection \<open>Service and method under the http component\<close>

lemma ctx_get_fold_lookup:
  "obj_get (fold (\<lambda>key c. if cls_get st key \<noteq> JUndefined
                           then AList.update key (cls_get st key) c else c) ks acc) k =
     (if k \<in> set ks \<and> cls_get st k \<noteq> JUndefined then cls_get st k else obj_get acc k)"
  by (induction ks arbitrary: acc) (auto simp: obj_get_update)

lemma obj_get_absent: "k \<notin> fst ` set d \<Longrightarrow> obj_get d k = JUndefined"
  by (simp add: obj_get_def map_of_eq_None_iff [THEN iffD2])

lemma obj_get_Nil: "obj_get [] k = JUndefined"
  by (simp add: obj_get_def)

lemma ctx_getAll_lookup: "obj_get (ctx_getAll st) k = cls_get st k"
proof (cases "k \<in> set (map fst (store st))")
  case True
  then show ?thesis
    unfolding ctx_getAll_def ctx_get_def ctx_get_fold_lookup by (simp add: obj_get_Nil)
next
  case False
  then have "cls_get st k = JUndefined" by (simp add: cls_get_def obj_get_absent)
  with False show ?thesis
    unfolding ctx_getAll_def ctx_get_def ctx_get_fold_lookup by (simp add: obj_get_Nil)
qed

lemma ctx_get_fold_distinct:
  "distinct (map fst acc) \<Longrightarrow>
   distinct (map fst (fold (\<lambda>key c. if cls_get st key \<noteq> JUndefined
                           then AList.update key (cls_get st key) c else c) ks acc))"
  by (induction ks arbitrary: acc) (auto simp: distinct_update)

lemma ctx_getAll_distinct: "distinct (map fst (ctx_getAll st))"
  by (simp add: ctx_getAll_def ctx_get_def ctx_get_fold_distinct)

lemma obj_assign_distinct: "distinct (map fst t) \<Longrightarrow> distinct (map fst (obj_assign t s))"
  unfolding obj_assign_def
  by (induction s arbitrary: t) (auto simp: distinct_update)

lemma obj_assign_lookup_other:
  "k \<notin> fst ` set s \<Longrightarrow> obj_get (obj_assign t s) k = obj_get t k"
  unfolding obj_assign_def
  by (induction s arbitrary: t) (auto simp: obj_get_update)

lemma clean_fold_lookup:
  "distinct (map fst d) \<Longrightarrow>
   map_of (fold (\<lambda>(key, v) cleaned.
              if isValidContextValue v (Some key) then AList.update key v cleaned else cleaned)
         d acc) k =
     (case map_of d k of
        None \<Rightarrow> map_of acc k
      | Some v \<Rightarrow> if isValidContextValue v (Some k) then Some v else map_of acc k)"
proof (induction d arbitrary: acc)
  case Nil
  show ?case by simp
next
  case (Cons a d)
  obtain k' v' where a: "a = (k', v')" by (cases a)
  have d: "distinct (map fst d)" and n: "k' \<notin> fst ` set d" using Cons.prems by (auto simp: a)
  have m: "map_of d k' = None" using n by (simp add: map_of_eq_None_iff)
  show ?case
    using Cons.IH [OF d] m
    by (auto simp: a update_conv' split: option.splits)
qed

lemma cleanLogData_lookup:
  "distinct (map fst d) \<Longrightarrow>
   obj_get (cleanLogData d) k =
     (if isValidContextValue (obj_get d k) (Some k) then obj_get d k else JUndefined)"
  unfolding cleanLogData_def obj_get_def
  by (simp add: clean_fold_lookup split: option.splits)

lemma clean_fold_keys:
  "fst ` set (fold (\<lambda>(key, v) cleaned.
              if isValidContextValue v (Some key) then AList.update key v cleaned else cleaned)
         d acc) \<subseteq> fst ` set acc \<union> fst ` set d"
proof (induction d arbitrary: acc)
  case Nil
  show ?case by simp
next
  case (Cons a d)
  obtain k' v' where a: "a = (k', v')" by (cases a)
  show ?case
    using Cons.IH [of "AList.update k' v' acc"] Cons.IH [of acc] dom_update [of k' v' acc]
    by (auto simp: a)
qed

lemma cleanLogData_keys: "obj_has (cleanLogData d) k \<Longrightarrow> obj_has d k"
  using clean_fold_keys [of d "[]"] by (auto simp: cleanLogData_def obj_has_def)


lemma cleanLogData_distinct: "distinct (map fst (cleanLogData d))"
proof -
  have "distinct (map fst acc) \<Longrightarrow>
        distinct (map fst (fold (\<lambda>(key, v) cleaned.
              if isValidContextValue v (Some key) then AList.update key v cleaned else cleaned)
         xs acc))" for xs acc
    by (induction xs arbitrary: acc) (auto simp: distinct_update)
  then show ?thesis by (simp add: cleanLogData_def)
qed

lemma otel_keys: "fst ` set (getOpenTelemetryContext env c) \<subseteq> {''traceId'', ''spanId''}"
  by (auto simp: getOpenTelemetryContext_def split: option.splits if_splits)

lemma delete_lookup: "obj_get (AList.delete k d) k' = (if k' = k then JUndefined else obj_get d k')"
  by (simp add: obj_get_def delete_conv')

lemma obj_has_delete: "obj_has (AList.delete k d) k' = (k' \<noteq> k \<and> obj_has d k')"
  by (auto simp: obj_has_def AList.delete_eq)

lemma http_is_valid: "isValidContextValue (JStr ''http'') (Some ''component'')"
  by (simp add: isValidContextValue_def INVALID_CONTEXT_VALUES_def)

lemma getAutoContext_http:
  assumes "has_context_service lg" and "cls_get st ''component'' = JStr ''http''"
  shows "obj_get (fst (getAutoContext lg env st)) ''component'' = JStr ''http''"
proof -
  have c: "obj_get (ctx_getAll st) ''component'' = JStr ''http''"
    using assms(2) by (simp add: ctx_getAll_lookup)
  then have r: "resolveCaller lg env (ctx_getAll st) st = (JUndefined, st)"
    by (simp add: resolveCaller_def shouldIncludeServiceMethod_def)
  have a: "fst (getAutoContext lg env st) =
      cleanLogData (obj_assign (ctx_getAll st) (getOpenTelemetryContext env (ctx_getAll st)))"
    using assms(1) by (simp add: getAutoContext_def r Let_def)
  have n: "''component'' \<notin> fst ` set (getOpenTelemetryContext env (ctx_getAll st))"
    using otel_keys [of env "ctx_getAll st"] by auto
  show ?thesis
    unfolding a
    by (simp add: cleanLogData_lookup obj_assign_distinct ctx_getAll_distinct
        obj_assign_lookup_other [OF n] c http_is_valid)
qed

lemma mergeInfoMeta_http:
  assumes "obj_get acc ''component'' = JStr ''http''"
    and "\<not> obj_has acc ''service''" and "\<not> obj_has acc ''method''"
    and "\<forall>v. (''component'', v) \<in> set m \<longrightarrow>
           v = JStr ''http'' \<or> \<not> isValidContextValue v (Some ''component'')"
  shows "\<not> obj_has (mergeInfoMeta (Some m) acc) ''service'' \<and>
         \<not> obj_has (mergeInfoMeta (Some m) acc) ''method''"
  using assms
proof (induction m arbitrary: acc)
  case Nil
  then show ?case by (simp add: mergeInfoMeta_def)
next
  case (Cons a m)
  obtain k v where a: "a = (k, v)" by (cases a)
  define acc' where "acc' =
     (if isValidContextValue v (Some k) \<and>
         (shouldIncludeServiceMethod acc \<or> (k \<noteq> ''service'' \<and> k \<noteq> ''method''))
      then AList.update k v acc else acc)"
  have s: "mergeInfoMeta (Some (a # m)) acc = mergeInfoMeta (Some m) acc'"
    by (simp add: mergeInfoMeta_def a acc'_def)
  have ns: "\<not> shouldIncludeServiceMethod acc"
    using Cons.prems(1) by (simp add: shouldIncludeServiceMethod_def)
  have c: "obj_get acc' ''component'' = JStr ''http''"
    using Cons.prems(1) Cons.prems(4) by (auto simp: acc'_def a obj_get_update)
  have h: "\<not> obj_has acc' ''service''" "\<not> obj_has acc' ''method''"
    using Cons.prems(2,3) ns by (auto simp: acc'_def obj_has_def dom_update)
  have r: "\<forall>v. (''component'', v) \<in> set m \<longrightarrow>
           v = JStr ''http'' \<or> \<not> isValidContextValue v (Some ''component'')"
    using Cons.prems(4) by simp
  show ?case unfolding s by (rule Cons.IH [OF c h r])
qed

text \<open>
  C2, as the code has it. For every \<^verbatim>\<open>info\<close> call made while the component of the context is
  \<^verbatim>\<open>http\<close>, with metadata that does not itself replace the component, the record has neither
  a \<^verbatim>\<open>service\<close> nor a \<^verbatim>\<open>method\<close> field, also when the metadata carries those keys: they are
  deleted from the automatic context and filtered out of the metadata.
\<close>

theorem info_http_record_without_service_method:
  assumes "has_context_service lg"
    and "cls_get st ''component'' = JStr ''http''"
    and "\<forall>m v. meta = Some m \<longrightarrow> (''component'', v) \<in> set m \<longrightarrow>
           v = JStr ''http'' \<or> \<not> isValidContextValue v (Some ''component'')"
  shows "\<forall>r \<in> set (new_records st (snd (info_op lg env message meta context st))).
           \<not> obj_has r ''service'' \<and> \<not> obj_has r ''method''"
proof -
  obtain a st' where g: "getAutoContext lg env st = (a, st')" by (cases "getAutoContext lg env st")
  have e: "emitted st' = emitted st" using getAutoContext_emitted [of lg env st] g by simp
  have ac: "obj_get a ''component'' = JStr ''http''"
    using getAutoContext_http [OF assms(1,2), of env] g by simp
  define logData0 where "logData0 = cleanLogData a"
  have ad: "distinct (map fst a)"
    using g cleanLogData_distinct by (auto simp: getAutoContext_def Let_def split_def)
  have c0: "obj_get logData0 ''component'' = JStr ''http''"
    by (simp add: logData0_def cleanLogData_lookup [OF ad] ac http_is_valid)
  define logData1 where "logData1 = AList.delete ''method'' (AList.delete ''service'' logData0)"
  have c1: "obj_get logData1 ''component'' = JStr ''http''"
    by (simp add: logData1_def delete_lookup c0)
  have h1: "\<not> obj_has logData1 ''service''" "\<not> obj_has logData1 ''method''"
    by (simp_all add: logData1_def obj_has_delete)
  have m: "\<not> obj_has (mergeInfoMeta meta logData1) ''service'' \<and>
           \<not> obj_has (mergeInfoMeta meta logData1) ''method''"
  proof (cases meta)
    case None
    then show ?thesis using h1 by (simp add: mergeInfoMeta_def)
  next
    case (Some m)
    then show ?thesis using mergeInfoMeta_http [OF c1 h1, of m] assms(3) by simp
  qed
  define logData where "logData = cleanLogData (mergeInfoMeta meta logData1)"
  have f: "\<not> obj_has logData ''service''" "\<not> obj_has logData ''method''"
    using m cleanLogData_keys by (auto simp: logData_def)
  have n0: "\<not> shouldIncludeServiceMethod logData0"
    using c0 by (simp add: shouldIncludeServiceMethod_def)
  have op: "info_op lg env message meta context st =
      emit LInfo logData
        (formatMessage env message
           (Some (AList.update ''context'' (resolveLabel lg (of_opt context) a) logData))) st'"
    unfolding info_op_def g prod.case Let_def
    using n0 by (simp add: logData_def logData1_def logData0_def)
  show ?thesis
    unfolding op using emit_new_records [OF e, of LInfo logData] f by blast
qed

theorem info_http_witness:
  "new_records example_state
     (snd (info_op example_logger example_env (JStr ''REQUEST GET /users'')
        (Some [(''service'', JStr ''UserService''), (''method'', JStr ''GET''),
               (''url'', JStr ''/users'')])
        (Some ''HTTP'') example_state)) =
     [[(''requestId'', JStr ''r1''), (''component'', JStr ''http''), (''url'', JStr ''/users'')]] \<and>
   \<not> obj_has [(''requestId'', JStr ''r1''), (''component'', JStr ''http''),
              (''url'', JStr ''/users'')] ''service'' \<and>
   \<not> obj_has [(''requestId'', JStr ''r1''), (''component'', JStr ''http''),
              (''url'', JStr ''/users'')] ''method''"
proof -
  have h1: "has_context_service example_logger" by (simp add: example_logger_def)
  have h2: "cls_get example_state ''component'' = JStr ''http''"
    by (simp add: example_state_def cls_get_def obj_get_def)
  have h3: "\<forall>m v. Some [(''service'', JStr ''UserService''), (''method'', JStr ''GET''),
               (''url'', JStr ''/users'')] = Some m \<longrightarrow> (''component'', v) \<in> set m \<longrightarrow>
           v = JStr ''http'' \<or> \<not> isValidContextValue v (Some ''component'')"
    by auto
  have v: "new_records example_state
     (snd (info_op example_logger example_env (JStr ''REQUEST GET /users'')
        (Some [(''service'', JStr ''UserService''), (''method'', JStr ''GET''),
               (''url'', JStr ''/users'')])
        (Some ''HTTP'') example_state)) =
     [[(''requestId'', JStr ''r1''), (''component'', JStr ''http''), (''url'', JStr ''/users'')]]"
    by code_simp
  show ?thesis
    using info_http_record_without_service_method
            [OF h1 h2 h3, of example_env "JStr ''REQUEST GET /users''" "Some ''HTTP''"]
          v
    by simp
qed

text \<open>
  The claim as stated fails for \<^verbatim>\<open>warn\<close>, which has no such filter: under the component
  \<^verbatim>\<open>http\<close> the \<^verbatim>\<open>service\<close> and \<^verbatim>\<open>method\<close> of the metadata reach the record.
\<close>

theorem warn_http_keeps_service_counterexample:
  "cls_get example_state ''component'' = JStr ''http'' \<and>
   last_record
     (snd (warn_op example_logger example_env (JStr ''slow request'')
        (Some (Meta [(''service'', JStr ''UserService''), (''method'', JStr ''GET'')]))
        None example_state)) =
     [(''requestId'', JStr ''r1''), (''component'', JStr ''http''),
      (''service'', JStr ''UserService''), (''method'', JStr ''GET'')] \<and>
   obj_has
     (last_record
       (snd (warn_op example_logger example_env (JStr ''slow request'')
          (Some (Meta [(''service'', JStr ''UserService''), (''method'', JStr ''GET'')]))
          None example_state)))
     ''service''"
  by code_simp

text \<open>
  The filter of \<^verbatim>\<open>info\<close> tests the component of the record while the metadata is merged:
  metadata that first replaces the component lets a later \<^verbatim>\<open>service\<close> through.
\<close>

lemma info_http_component_override_example:
  "last_record
     (snd (info_op example_logger example_env (JStr ''forwarded'')
        (Some [(''component'', JStr ''rpc''), (''service'', JStr ''UserService'')])
        None example_state)) =
     [(''requestId'', JStr ''r1''), (''component'', JStr ''rpc''),
      (''service'', JStr ''UserService'')]"
  by code_simp

subsection \<open>The cached caller\<close>

lemma resolveCaller_hit:
  "has_context_service lg \<Longrightarrow> truthy (cls_get st ''_cachedCaller'') \<Longrightarrow>
   snd (resolveCaller lg env c st) = st"
  by (simp add: resolveCaller_def ctx_getValue_def)

lemma getAutoContext_hit:
  "has_context_service lg \<Longrightarrow> truthy (cls_get st ''_cachedCaller'') \<Longrightarrow>
   snd (getAutoContext lg env st) = st"
  by (simp add: getAutoContext_snd resolveCaller_hit)

lemma emit_state:
  "store (snd (emit lvl d msg st)) = store st \<and>
   inspections (snd (emit lvl d msg st)) = inspections st"
  by (cases msg) (simp_all add: emit_def)

lemma log_op_state:
  "store (snd (log_op lg env message context st)) = store (snd (getAutoContext lg env st)) \<and>
   inspections (snd (log_op lg env message context st)) =
     inspections (snd (getAutoContext lg env st))"
proof -
  obtain a st' where g: "getAutoContext lg env st = (a, st')" by (cases "getAutoContext lg env st")
  show ?thesis
    unfolding log_op_def g prod.case Let_def
    by (cases "case message of JStr s \<Rightarrow> Inr (Some s) | _ \<Rightarrow> formatMessage env message None")
       (simp_all add: emit_state)
qed

lemma error_op_state:
  "store (snd (error_op lg env message meta context st)) = store (snd (getAutoContext lg env st)) \<and>
   inspections (snd (error_op lg env message meta context st)) =
     inspections (snd (getAutoContext lg env st))"
proof -
  obtain a st' where g: "getAutoContext lg env st = (a, st')" by (cases "getAutoContext lg env st")
  show ?thesis
    unfolding error_op_def g prod.case Let_def
    by (cases message) (simp_all add: emit_state)
qed

lemma warn_op_state:
  "store (snd (warn_op lg env message metaOrContext context st)) =
     store (snd (getAutoContext lg env st)) \<and>
   inspections (snd (warn_op lg env message metaOrContext context st)) =
     inspections (snd (getAutoContext lg env st))"
proof -
  obtain a st' where g: "getAutoContext lg env st = (a, st')" by (cases "getAutoContext lg env st")
  show ?thesis
    unfolding warn_op_def g Let_def split_def fst_conv snd_conv
    by (simp add: emit_state)
qed

lemma debug_op_state:
  "store (snd (debug_op lg env message context st)) = store (snd (getAutoContext lg env st)) \<and>
   inspections (snd (debug_op lg env message context st)) =
     inspections (snd (getAutoContext lg env st))"
proof -
  obtain a st' where g: "getAutoContext lg env st = (a, st')" by (cases "getAutoContext lg env st")
  show ?thesis
    unfolding debug_op_def g prod.case Let_def by (simp add: emit_state)
qed

lemma verbose_op_state:
  "store (snd (verbose_op lg env message context st)) = store (snd (getAutoContext lg env st)) \<and>
   inspections (snd (verbose_op lg env message context st)) =
     inspections (snd (getAutoContext lg env st))"
proof -
  obtain a st' where g: "getAutoContext lg env st = (a, st')" by (cases "getAutoContext lg env st")
  show ?thesis
    unfolding verbose_op_def g prod.case Let_def by (simp add: emit_state)
qed

lemma info_op_state:
  "store (snd (info_op lg env message meta context st)) = store (snd (getAutoContext lg env st)) \<and>
   inspections (snd (info_op lg env message meta context st)) =
     inspections (snd (getAutoContext lg env st))"
proof -
  obtain a st' where g: "getAutoContext lg env st = (a, st')" by (cases "getAutoContext lg env st")
  show ?thesis
    unfolding info_op_def g prod.case Let_def by (simp add: emit_state)
qed

lemma fatal_op_state:
  "store (snd (fatal_op lg env message context st)) = store (snd (getAutoContext lg env st)) \<and>
   inspections (snd (fatal_op lg env message context st)) =
     inspections (snd (getAutoContext lg env st))"
proof -
  obtain a st' where g: "getAutoContext lg env st = (a, st')" by (cases "getAutoContext lg env st")
  show ?thesis
    unfolding fatal_op_def g prod.case Let_def
    by (cases message) (simp_all add: emit_state)
qed

text \<open>When a call needs the caller, in terms of the store.\<close>

lemma needs_caller_store:
  "(shouldIncludeServiceMethod (ctx_getAll st) \<and> \<not> truthy (obj_get (ctx_getAll st) ''service'') \<and>
    \<not> truthy (obj_get (ctx_getAll st) ''method'')) =
   (cls_get st ''component'' \<noteq> JStr ''http'' \<and> \<not> truthy (cls_get st ''service'') \<and>
    \<not> truthy (cls_get st ''method''))"
  by (simp add: shouldIncludeServiceMethod_def ctx_getAll_lookup)

lemma getAutoContext_miss:
  assumes "has_context_service lg"
    and "cls_get st ''component'' \<noteq> JStr ''http''"
    and "\<not> truthy (cls_get st ''service'')" and "\<not> truthy (cls_get st ''method'')"
    and "\<not> truthy (cls_get st ''_cachedCaller'')"
  shows "snd (getAutoContext lg env st) =
     (if truthy (obj_get (getCallerContext (cur_stack env)) ''service'') \<or>
         truthy (obj_get (getCallerContext (cur_stack env)) ''method'')
      then cls_set ''_cachedCaller'' (JObj (getCallerContext (cur_stack env)))
             (st\<lparr>inspections := Suc (inspections st)\<rparr>)
      else st\<lparr>inspections := Suc (inspections st)\<rparr>)"
  using assms needs_caller_store [of st]
  by (simp add: getAutoContext_snd resolveCaller_def ctx_getValue_def ctx_set_def Let_def)

lemma resolveCaller_cong:
  "obj_get c2 ''component'' = obj_get c1 ''component'' \<Longrightarrow>
   truthy (obj_get c2 ''service'') = truthy (obj_get c1 ''service'') \<Longrightarrow>
   truthy (obj_get c2 ''method'') = truthy (obj_get c1 ''method'') \<Longrightarrow>
   resolveCaller lg env c2 st = resolveCaller lg env c1 st"
  by (simp add: resolveCaller_def shouldIncludeServiceMethod_def)

lemma resolveCaller_again:
  assumes "has_context_service lg"
    and "truthy (cls_get (snd (resolveCaller lg env c st)) ''_cachedCaller'')"
  shows "resolveCaller lg env' c (snd (resolveCaller lg env c st)) =
           (fst (resolveCaller lg env c st), snd (resolveCaller lg env c st))"
proof (cases "shouldIncludeServiceMethod c \<and> \<not> truthy (obj_get c ''service'') \<and>
         \<not> truthy (obj_get c ''method'')")
  case False
  then show ?thesis by (auto simp: resolveCaller_def)
next
  case need: True
  show ?thesis
  proof (cases "truthy (cls_get st ''_cachedCaller'')")
    case True
    then show ?thesis using need assms(1) by (simp add: resolveCaller_def ctx_getValue_def)
  next
    case False
    define caller where "caller = JObj (getCallerContext (cur_stack env))"
    define st' where "st' = st\<lparr>inspections := Suc (inspections st)\<rparr>"
    have r: "resolveCaller lg env c st =
       (if truthy (js_prop caller ''service'') \<or> truthy (js_prop caller ''method'')
        then (caller, ctx_set ''_cachedCaller'' caller st') else (caller, st'))"
      using need False assms(1)
      by (simp add: resolveCaller_def ctx_getValue_def Let_def caller_def st'_def)
    have n: "cls_get st' ''_cachedCaller'' = cls_get st ''_cachedCaller''"
      by (simp add: st'_def cls_get_def)
    have ne: "truthy (js_prop caller ''service'') \<or> truthy (js_prop caller ''method'')"
      using assms(2) False n unfolding r by (auto split: if_splits)
    have s: "resolveCaller lg env c st = (caller, ctx_set ''_cachedCaller'' caller st')"
      using r ne by simp
    have cc: "cls_get (ctx_set ''_cachedCaller'' caller st') ''_cachedCaller'' = caller"
      by (simp add: ctx_set_def cls_set_def cls_get_def obj_get_update caller_def)
    show ?thesis
      unfolding s fst_conv snd_conv
      using need assms(1)
      by (simp add: resolveCaller_def [of lg "env'" c] ctx_getValue_def cc [unfolded caller_def]
          caller_def Let_def)
  qed
qed

lemma service_key_not_otel:
  "''service'' \<notin> fst ` set (getOpenTelemetryContext env c) \<and>
   ''method'' \<notin> fst ` set (getOpenTelemetryContext env c)"
  using otel_keys [of env c] by auto

lemma auto_service:
  "obj_get (fst (getAutoContext lg env st)) ''service'' =
     (let context = (if has_context_service lg then ctx_getAll st else []);
          caller = fst (resolveCaller lg env context st);
          v = (if truthy (js_prop caller ''service'') \<and> \<not> truthy (obj_get context ''service'') \<and>
                  shouldIncludeServiceMethod context \<and>
                  \<not> set_has INTERNAL_CLASSES (js_prop caller ''service'')
               then js_prop caller ''service'' else obj_get context ''service'')
      in if isValidContextValue v (Some ''service'') then v else JUndefined)"
proof -
  define ctxt where "ctxt = (if has_context_service lg then ctx_getAll st else [])"
  have d: "distinct (map fst ctxt)" by (simp add: ctxt_def ctx_getAll_distinct)
  have d': "distinct (map fst (obj_assign ctxt (getOpenTelemetryContext env ctxt)))"
    using d by (rule obj_assign_distinct)
  have l: "obj_get (obj_assign ctxt (getOpenTelemetryContext env ctxt)) ''service''
            = obj_get ctxt ''service''"
    using service_key_not_otel [of env ctxt] by (simp add: obj_assign_lookup_other)
  show ?thesis
    unfolding getAutoContext_def ctxt_def [symmetric] Let_def split_def fst_conv
    by (auto simp: cleanLogData_lookup distinct_update d' obj_get_update l)
qed

lemma auto_method:
  "obj_get (fst (getAutoContext lg env st)) ''method'' =
     (let context = (if has_context_service lg then ctx_getAll st else []);
          caller = fst (resolveCaller lg env context st);
          v = (if truthy (js_prop caller ''method'') \<and> \<not> truthy (obj_get context ''method'') \<and>
                  shouldIncludeServiceMethod context \<and>
                  \<not> set_has INTERNAL_METHODS (js_prop caller ''method'')
               then js_prop caller ''method'' else obj_get context ''method'')
      in if isValidContextValue v (Some ''method'') then v else JUndefined)"
proof -
  define ctxt where "ctxt = (if has_context_service lg then ctx_getAll st else [])"
  have d: "distinct (map fst ctxt)" by (simp add: ctxt_def ctx_getAll_distinct)
  have d': "distinct (map fst (obj_assign ctxt (getOpenTelemetryContext env ctxt)))"
    using d by (rule obj_assign_distinct)
  have l: "obj_get (obj_assign ctxt (getOpenTelemetryContext env ctxt)) ''method''
            = obj_get ctxt ''method''"
    using service_key_not_otel [of env ctxt] by (simp add: obj_assign_lookup_other)
  show ?thesis
    unfolding getAutoContext_def ctxt_def [symmetric] Let_def split_def fst_conv
    by (auto simp: cleanLogData_lookup distinct_update d' obj_get_update l)
qed

lemma cached_caller_reused:
  assumes "has_context_service lg"
    and "truthy (cls_get (snd (getAutoContext lg env st)) ''_cachedCaller'')"
  shows "obj_get (fst (getAutoContext lg env' (snd (getAutoContext lg env st)))) ''service'' =
           obj_get (fst (getAutoContext lg env st)) ''service'' \<and>
         obj_get (fst (getAutoContext lg env' (snd (getAutoContext lg env st)))) ''method'' =
           obj_get (fst (getAutoContext lg env st)) ''method'' \<and>
         snd (getAutoContext lg env' (snd (getAutoContext lg env st))) =
           snd (getAutoContext lg env st)"
proof -
  define st1 where "st1 = snd (getAutoContext lg env st)"
  have s1: "st1 = snd (resolveCaller lg env (ctx_getAll st) st)"
    using assms(1) by (simp add: st1_def getAutoContext_snd)
  have k: "cls_get st1 k = cls_get st k" if "k \<noteq> ''_cachedCaller''" for k
    using that by (simp add: st1_def getAutoContext_cls_get)
  have g: "obj_get (ctx_getAll st1) k = obj_get (ctx_getAll st) k" if "k \<noteq> ''_cachedCaller''" for k
    using k [OF that] by (simp add: ctx_getAll_lookup)
  have sh: "shouldIncludeServiceMethod (ctx_getAll st1) = shouldIncludeServiceMethod (ctx_getAll st)"
    by (simp add: shouldIncludeServiceMethod_def g)
  have "resolveCaller lg env' (ctx_getAll st1) st1 = resolveCaller lg env' (ctx_getAll st) st1"
    by (rule resolveCaller_cong) (simp_all add: g)
  also have "\<dots> = (fst (resolveCaller lg env (ctx_getAll st) st), st1)"
    unfolding s1
    by (rule resolveCaller_again [OF assms(1)]) (use assms(2) s1 st1_def in simp)
  finally have r: "resolveCaller lg env' (ctx_getAll st1) st1 =
      (fst (resolveCaller lg env (ctx_getAll st) st), st1)" .
  have "snd (getAutoContext lg env' st1) = st1"
    using assms(1) r by (simp add: getAutoContext_snd)
  then show ?thesis
    unfolding st1_def [symmetric]
    using assms(1) r by (simp add: auto_service auto_method g sh Let_def)
qed

text \<open>
  C3, as the code has it. Every logging operation leaves the store and the count of stack
  inspections as \<^verbatim>\<open>getAutoContext\<close> left them. With a caller stored under \<^verbatim>\<open>_cachedCaller\<close>,
  \<^verbatim>\<open>getAutoContext\<close> changes nothing: the stack is not inspected again and the cache is not
  written. A call that needs the caller and finds no cache inspects the stack once, and stores
  the result only when it has a service or a method; an empty result is not stored. Once
  a call has left a cached caller, the next call contributes the same \<^verbatim>\<open>service\<close> and \<^verbatim>\<open>method\<close>,
  whatever its own stack, and inspects nothing.
\<close>

theorem caller_cache_reused_once_stored:
  assumes "has_context_service lg"
  shows
   "(\<forall>s \<in> {snd (log_op lg env message context st),
            snd (error_op lg env message meta context st),
            snd (warn_op lg env message metaOrContext context st),
            snd (debug_op lg env message context st),
            snd (verbose_op lg env message context st),
            snd (info_op lg env message meta context st),
            snd (fatal_op lg env message context st)}.
       store s = store (snd (getAutoContext lg env st)) \<and>
       inspections s = inspections (snd (getAutoContext lg env st))) \<and>
    (truthy (cls_get st ''_cachedCaller'') \<longrightarrow> snd (getAutoContext lg env st) = st) \<and>
    (cls_get st ''component'' \<noteq> JStr ''http'' \<and> \<not> truthy (cls_get st ''service'') \<and>
     \<not> truthy (cls_get st ''method'') \<and> \<not> truthy (cls_get st ''_cachedCaller'') \<longrightarrow>
       snd (getAutoContext lg env st) =
         (if truthy (obj_get (getCallerContext (cur_stack env)) ''service'') \<or>
             truthy (obj_get (getCallerContext (cur_stack env)) ''method'')
          then cls_set ''_cachedCaller'' (JObj (getCallerContext (cur_stack env)))
                 (st\<lparr>inspections := Suc (inspections st)\<rparr>)
          else st\<lparr>inspections := Suc (inspections st)\<rparr>)) \<and>
    (truthy (cls_get (snd (getAutoContext lg env st)) ''_cachedCaller'') \<longrightarrow>
       obj_get (fst (getAutoContext lg env' (snd (getAutoContext lg env st)))) ''service'' =
         obj_get (fst (getAutoContext lg env st)) ''service'' \<and>
       obj_get (fst (getAutoContext lg env' (snd (getAutoContext lg env st)))) ''method'' =
         obj_get (fst (getAutoContext lg env st)) ''method'' \<and>
       snd (getAutoContext lg env' (snd (getAutoContext lg env st))) =
         snd (getAutoContext lg env st))"
proof (intro conjI impI)
  show "\<forall>s \<in> {snd (log_op lg env message context st),
            snd (error_op lg env message meta context st),
            snd (warn_op lg env message metaOrContext context st),
            snd (debug_op lg env message context st),
            snd (verbose_op lg env message context st),
            snd (info_op lg env message meta context st),
            snd (fatal_op lg env message context st)}.
       store s = store (snd (getAutoContext lg env st)) \<and>
       inspections s = inspections (snd (getAutoContext lg env st))"
    using log_op_state [of lg env message "context" st]
      error_op_state [of lg env message meta "context" st]
      warn_op_state [of lg env message metaOrContext "context" st]
      debug_op_state [of lg env message "context" st]
      verbose_op_state [of lg env message "context" st]
      info_op_state [of lg env message meta "context" st]
      fatal_op_state [of lg env message "context" st]
    by simp
next
  assume "truthy (cls_get st ''_cachedCaller'')"
  then show "snd (getAutoContext lg env st) = st"
    using assms by (simp add: getAutoContext_hit)
next
  assume a: "cls_get st ''component'' \<noteq> JStr ''http'' \<and> \<not> truthy (cls_get st ''service'') \<and>
     \<not> truthy (cls_get st ''method'') \<and> \<not> truthy (cls_get st ''_cachedCaller'')"
  show "snd (getAutoContext lg env st) =
         (if truthy (obj_get (getCallerContext (cur_stack env)) ''service'') \<or>
             truthy (obj_get (getCallerContext (cur_stack env)) ''method'')
          then cls_set ''_cachedCaller'' (JObj (getCallerContext (cur_stack env)))
                 (st\<lparr>inspections := Suc (inspections st)\<rparr>)
          else st\<lparr>inspections := Suc (inspections st)\<rparr>)"
    using a by (intro getAutoContext_miss assms) simp_all
next
  assume c: "truthy (cls_get (snd (getAutoContext lg env st)) ''_cachedCaller'')"
  show "obj_get (fst (getAutoContext lg env' (snd (getAutoContext lg env st)))) ''service'' =
         obj_get (fst (getAutoContext lg env st)) ''service''"
    using cached_caller_reused [OF assms c] by simp
  show "obj_get (fst (getAutoContext lg env' (snd (getAutoContext lg env st)))) ''method'' =
         obj_get (fst (getAutoContext lg env st)) ''method''"
    using cached_caller_reused [OF assms c] by simp
  show "snd (getAutoContext lg env' (snd (getAutoContext lg env st))) =
         snd (getAutoContext lg env st)"
    using cached_caller_reused [OF assms c] by simp
qed

theorem caller_cache_witness:
  "snd (getAutoContext example_logger example_service_env example_rpc_state) =
     \<lparr>store = [(''requestId'', JStr ''r2''), (''component'', JStr ''rpc''),
               (''_cachedCaller'',
                JObj [(''service'', JStr ''OrderService''), (''method'', JStr ''create'')])],
      emitted = [], inspections = 1\<rparr> \<and>
   obj_get (fst (getAutoContext example_logger example_plain_env
      (snd (getAutoContext example_logger example_service_env example_rpc_state)))) ''service''
     = JStr ''OrderService'' \<and>
   snd (getAutoContext example_logger example_plain_env
      (snd (getAutoContext example_logger example_service_env example_rpc_state))) =
     snd (getAutoContext example_logger example_service_env example_rpc_state) \<and>
   inspections
     (snd (debug_op example_logger example_plain_env (JStr ''second'') None
        (snd (debug_op example_logger example_service_env (JStr ''first'') None
                example_rpc_state)))) = 1"
proof -
  have h: "has_context_service example_logger" by (simp add: example_logger_def)
  have v1: "snd (getAutoContext example_logger example_service_env example_rpc_state) =
     \<lparr>store = [(''requestId'', JStr ''r2''), (''component'', JStr ''rpc''),
               (''_cachedCaller'',
                JObj [(''service'', JStr ''OrderService''), (''method'', JStr ''create'')])],
      emitted = [], inspections = 1\<rparr>"
    by code_simp
  have v2: "obj_get (fst (getAutoContext example_logger example_service_env example_rpc_state))
      ''service'' = JStr ''OrderService''"
    by code_simp
  have v3: "truthy (cls_get (snd (getAutoContext example_logger example_service_env
      example_rpc_state)) ''_cachedCaller'')"
    by code_simp
  have v4: "inspections
     (snd (debug_op example_logger example_plain_env (JStr ''second'') None
        (snd (debug_op example_logger example_service_env (JStr ''first'') None
                example_rpc_state)))) = 1"
    by code_simp
  show ?thesis
    using caller_cache_reused_once_stored
            [OF h, of example_service_env "JStr ''first''" None example_rpc_state None None
               example_plain_env]
          v1 v2 v3 v4
    by simp
qed

text \<open>
  The claim as stated fails while the resolution finds no caller: nothing is cached, so two
  calls of one scope inspect the stack twice, and a second call made from a method of a
  class reports a service that the first did not.
\<close>

theorem caller_resolved_again_counterexample:
  "inspections
     (snd (debug_op example_logger example_plain_env (JStr ''second'') None
        (snd (debug_op example_logger example_plain_env (JStr ''first'') None
                example_rpc_state)))) = 2 \<and>
   obj_get (last_record
     (snd (debug_op example_logger example_plain_env (JStr ''first'') None example_rpc_state)))
     ''service'' = JUndefined \<and>
   obj_get (last_record
     (snd (debug_op example_logger example_service_env (JStr ''second'') None
        (snd (debug_op example_logger example_plain_env (JStr ''first'') None
                example_rpc_state)))))
     ''service'' = JStr ''OrderService''"
  by code_simp

subsection \<open>Redaction\<close>

lemma sanitize_fold_keys:
  "map fst (fold (\<lambda>key sanitized.
            if is_sensitive ks key
            then AList.update key (JStr ''[REDACTED]'') sanitized else sanitized)
       xs obj) = map fst obj"
  if "set xs \<subseteq> fst ` set obj"
  using that
proof (induction xs arbitrary: obj)
  case Nil
  show ?case by simp
next
  case (Cons a xs)
  have k: "map fst (AList.update a (JStr ''[REDACTED]'') obj) = map fst obj"
    using Cons.prems by (simp add: update_keys)
  have s: "set xs \<subseteq> fst ` set (AList.update a (JStr ''[REDACTED]'') obj)"
    using Cons.prems by (auto simp: dom_update)
  show ?case
    using Cons.IH [of obj] Cons.IH [OF s] Cons.prems k by simp
qed

lemma sanitizeObject_keys: "map fst (sanitizeObject obj ks) = map fst obj"
  unfolding sanitizeObject_def by (rule sanitize_fold_keys) simp

lemma sanitize_fold_lookup:
  "obj_get (fold (\<lambda>key sanitized.
            if is_sensitive ks key
            then AList.update key (JStr ''[REDACTED]'') sanitized else sanitized)
       xs obj) k =
     (if k \<in> set xs \<and> is_sensitive ks k then JStr ''[REDACTED]'' else obj_get obj k)"
  by (induction xs arbitrary: obj) (auto simp: obj_get_update)

lemma sanitizeObject_lookup:
  "obj_get (sanitizeObject obj ks) k =
     (if obj_has obj k \<and> is_sensitive ks k then JStr ''[REDACTED]'' else obj_get obj k)"
  by (simp add: sanitizeObject_def sanitize_fold_lookup obj_has_def)

lemma engine_redact_remove_result:
  "remove r \<Longrightarrow> list_all plain_name (paths r) \<Longrightarrow>
   engine_redact r logRecord = Some (filter (\<lambda>(k, v). k \<notin> set (paths r)) logRecord)"
  by (simp add: engine_redact_def)

lemma filter_paths_removed: "\<not> obj_has (filter (\<lambda>(k, v). k \<notin> set ps) d) k" if "k \<in> set ps"
  using that by (auto simp: obj_has_def)

lemma filter_paths_kept:
  "obj_get (filter (\<lambda>(k, v). k \<notin> set ps) d) k = obj_get d k" if "k \<notin> set ps"
proof -
  have "map_of (filter (\<lambda>(k, v). k \<notin> set ps) d) k = map_of d k"
    using that by (induction d) auto
  then show ?thesis by (simp add: obj_get_def)
qed

lemma default_paths_plain: "list_all plain_name DEFAULT_REDACT_PATHS"
  by (simp add: DEFAULT_REDACT_PATHS_def plain_name_def is_ident_def)

text \<open>
  C6, as the code has it. Unless the caller's \<^verbatim>\<open>pinoOptions\<close> carry a \<^verbatim>\<open>redact\<close> option of their
  own, the redaction the logger configures is: the configured paths (by default
  \<^verbatim>\<open>DEFAULT_REDACT_PATHS\<close>) with \<^verbatim>\<open>remove: true\<close>. Then, when the configured paths are plain field
  names (as the default ones are), in the record of every call, at every level, a field at
  the top of the record that is named by a configured path is removed by the engine, and
  every other field of the record is kept as it is. When the caller's \<^verbatim>\<open>pinoOptions\<close> carry a
  \<^verbatim>\<open>redact\<close> option, that option replaces the logger's. Replacement in place by a marker is
  what \<^verbatim>\<open>sanitizeObject\<close> does, for the objects the HTTP interceptor passes through it: the keys
  stay, the value of every key that contains a sensitive key is \<^verbatim>\<open>[REDACTED]\<close>, and the other
  values are unchanged.
\<close>

theorem redacted_fields_are_removed:
  "((case pinoOptions options of None \<Rightarrow> True | Some p \<Rightarrow> override_redact p = None) \<longrightarrow>
      pino_redact (createLogger options node_env infrastructureContext) =
        \<lparr>paths = (case redact options of Some r \<Rightarrow> r | None \<Rightarrow> DEFAULT_REDACT_PATHS),
         remove = True\<rparr> \<and>
      (list_all plain_name (case redact options of Some r \<Rightarrow> r | None \<Rightarrow> DEFAULT_REDACT_PATHS) \<longrightarrow>
         (\<exists>out. serialized (createLogger options node_env infrastructureContext)
                   (lvl, logRecord, msg) = Some out \<and>
            (k \<in> set (case redact options of Some r \<Rightarrow> r | None \<Rightarrow> DEFAULT_REDACT_PATHS) \<longrightarrow>
               \<not> obj_has out k) \<and>
            (k \<notin> set (case redact options of Some r \<Rightarrow> r | None \<Rightarrow> DEFAULT_REDACT_PATHS) \<longrightarrow>
               obj_get out k = obj_get logRecord k)))) \<and>
   (\<forall>p r. pinoOptions options = Some p \<and> override_redact p = Some r \<longrightarrow>
      pino_redact (createLogger options node_env infrastructureContext) = r) \<and>
   list_all plain_name DEFAULT_REDACT_PATHS \<and>
   map fst (sanitizeObject obj sensitiveKeys) = map fst obj \<and>
   (obj_has obj k \<and> is_sensitive sensitiveKeys k \<longrightarrow>
      obj_get (sanitizeObject obj sensitiveKeys) k = JStr ''[REDACTED]'') \<and>
   (\<not> is_sensitive sensitiveKeys k \<longrightarrow>
      obj_get (sanitizeObject obj sensitiveKeys) k = obj_get obj k)"
proof -
  define cfg where "cfg = (case redact options of Some r \<Rightarrow> r | None \<Rightarrow> DEFAULT_REDACT_PATHS)"
  define po where "po = createLogger options node_env infrastructureContext"
  have r: "pino_redact po = \<lparr>paths = cfg, remove = True\<rparr>"
    if "case pinoOptions options of None \<Rightarrow> True | Some p \<Rightarrow> override_redact p = None"
    using that by (simp add: po_def cfg_def createLogger_def Let_def split: option.splits)
  have s: "\<exists>out. serialized po (lvl, logRecord, msg) = Some out \<and>
            (k \<in> set cfg \<longrightarrow> \<not> obj_has out k) \<and>
            (k \<notin> set cfg \<longrightarrow> obj_get out k = obj_get logRecord k)"
    if a: "case pinoOptions options of None \<Rightarrow> True | Some p \<Rightarrow> override_redact p = None"
      and b: "list_all plain_name cfg"
  proof -
    have "serialized po (lvl, logRecord, msg) =
            Some (filter (\<lambda>(k, v). k \<notin> set cfg) logRecord)"
      using engine_redact_remove_result [of "\<lparr>paths = cfg, remove = True\<rparr>" logRecord] b
      by (simp add: serialized_def r [OF a])
    then show ?thesis
      using filter_paths_removed [of k cfg logRecord] filter_paths_kept [of k cfg logRecord]
      by simp
  qed
  have ov: "\<forall>p r. pinoOptions options = Some p \<and> override_redact p = Some r \<longrightarrow> pino_redact po = r"
    by (simp add: po_def createLogger_def Let_def)
  have p1: "(case pinoOptions options of None \<Rightarrow> True | Some p \<Rightarrow> override_redact p = None) \<longrightarrow>
      pino_redact po = \<lparr>paths = cfg, remove = True\<rparr> \<and>
      (list_all plain_name cfg \<longrightarrow>
         (\<exists>out. serialized po (lvl, logRecord, msg) = Some out \<and>
            (k \<in> set cfg \<longrightarrow> \<not> obj_has out k) \<and>
            (k \<notin> set cfg \<longrightarrow> obj_get out k = obj_get logRecord k)))"
    using r s by blast
  have p3: "map fst (sanitizeObject obj sensitiveKeys) = map fst obj"
    by (rule sanitizeObject_keys)
  have p4: "obj_has obj k \<and> is_sensitive sensitiveKeys k \<longrightarrow>
      obj_get (sanitizeObject obj sensitiveKeys) k = JStr ''[REDACTED]''"
    by (simp add: sanitizeObject_lookup)
  have p5: "\<not> is_sensitive sensitiveKeys k \<longrightarrow>
      obj_get (sanitizeObject obj sensitiveKeys) k = obj_get obj k"
    by (simp add: sanitizeObject_lookup)
  show ?thesis
    using p1 ov default_paths_plain p3 p4 p5 unfolding po_def cfg_def by (intro conjI)
qed

theorem redaction_witness:
  "(\<exists>out. serialized (createLogger example_options None [])
       (LError, [(''password'', JStr ''hunter2''), (''userId'', JStr ''u1'')], Some ''login failed'')
        = Some out \<and> \<not> obj_has out ''password'') \<and>
   (\<exists>out. serialized (createLogger example_options None [])
       (LError, [(''password'', JStr ''hunter2''), (''userId'', JStr ''u1'')], Some ''login failed'')
        = Some out \<and> obj_get out ''userId'' = JStr ''u1'') \<and>
   pino_redact (createLogger example_override_options None []) =
     \<lparr>paths = [''token''], remove = False\<rparr> \<and>
   sanitizeObject [(''Authorization'', JStr ''Bearer abc''), (''accept'', JStr ''*/*'')]
       SENSITIVE_KEYS =
     [(''Authorization'', JStr ''[REDACTED]''), (''accept'', JStr ''*/*'')]"
proof -
  have h1: "case pinoOptions example_options of None \<Rightarrow> True | Some p \<Rightarrow> override_redact p = None"
    by (simp add: example_options_def)
  have h0: "(case redact example_options of Some r \<Rightarrow> r | None \<Rightarrow> DEFAULT_REDACT_PATHS)
      = DEFAULT_REDACT_PATHS"
    by (simp add: example_options_def)
  have h2: "''password'' \<in> set DEFAULT_REDACT_PATHS"
    by (simp add: DEFAULT_REDACT_PATHS_def)
  have h3: "''userId'' \<notin> set DEFAULT_REDACT_PATHS"
    by (simp add: DEFAULT_REDACT_PATHS_def)
  have h4: "list_all plain_name DEFAULT_REDACT_PATHS"
    by (simp add: DEFAULT_REDACT_PATHS_def plain_name_def is_ident_def)
  have h5: "pinoOptions example_override_options =
      Some \<lparr>override_level = None,
            override_redact = Some \<lparr>paths = [''token''], remove = False\<rparr>,
            override_enabled = None\<rparr>"
    by (simp add: example_override_options_def)
  have v1: "obj_get [(''password'', JStr ''hunter2''), (''userId'', JStr ''u1'')] ''userId''
      = JStr ''u1''"
    by (simp add: obj_get_def)
  have v2: "sanitizeObject [(''Authorization'', JStr ''Bearer abc''), (''accept'', JStr ''*/*'')]
       SENSITIVE_KEYS =
     [(''Authorization'', JStr ''[REDACTED]''), (''accept'', JStr ''*/*'')]"
    by code_simp
  show ?thesis
    using redacted_fields_are_removed
            [of example_options None "[]" LError
                "[(''password'', JStr ''hunter2''), (''userId'', JStr ''u1'')]"
                "Some ''login failed''" "''password''"
                "[(''Authorization'', JStr ''Bearer abc''), (''accept'', JStr ''*/*'')]"
                SENSITIVE_KEYS]
          redacted_fields_are_removed
            [of example_options None "[]" LError
                "[(''password'', JStr ''hunter2''), (''userId'', JStr ''u1'')]"
                "Some ''login failed''" "''userId''"
                "[(''Authorization'', JStr ''Bearer abc''), (''accept'', JStr ''*/*'')]"
                SENSITIVE_KEYS]
          redacted_fields_are_removed
            [of example_override_options None "[]" LError "[]" None "''password''" "[]" "[]"]
          h1 h2 h3 h4 h5 v1 v2
    unfolding h0
    by simp
qed

text \<open>
  The claim as stated fails: with the default options the logger asks the engine to remove
  the redacted fields, and the field \<^verbatim>\<open>password\<close> of a record is not in what is serialized.
\<close>

theorem redacted_field_removed_counterexample:
  "pino_redact (createLogger example_options None []) =
     \<lparr>paths = DEFAULT_REDACT_PATHS, remove = True\<rparr> \<and>
   serialized (createLogger example_options None [])
     (LInfo, [(''password'', JStr ''hunter2''), (''userId'', JStr ''u1'')], Some ''login'')
     = Some [(''userId'', JStr ''u1'')] \<and>
   \<not> obj_has [(''userId'', JStr ''u1'')] ''password''"
  by (simp add: createLogger_def example_options_def serialized_def engine_redact_def
      DEFAULT_REDACT_PATHS_def obj_has_def plain_name_def is_ident_def)

end
